theory Spec2Isabelle
  imports Main "HOL-Library.AList"
begin

section \<open>Entities of the node graph (node\_system.py)\<close>

text \<open>
  The enumerations become datatypes, the dataclasses become records. A field called
  \<open>id\<close> in the source is \<open>port_id\<close>, \<open>conn_id\<close> or \<open>node_id\<close> here, and
  the fields \<open>position\<close>, \<open>size\<close>, \<open>required_resources\<close>,
  \<open>required_flags\<close> and \<open>state_changes\<close> of \<open>BaseNode\<close> carry the prefix
  \<open>node_\<close>, because record fields share one name space. A Python \<open>dict\<close> is an
  association list in insertion order: assignment to a present key keeps the key's place,
  assignment to a new key appends (\<open>AList.update\<close>), \<open>del\<close> drops the key
  (\<open>AList.delete\<close>), a lookup is \<open>map_of\<close>.
\<close>

datatype NodeType = DIALOGUE | QUEST | OBJECTIVE | CHOICE_NODE | CONDITION | HUB | MERGE
  | STATE_CHANGE_NODE | RESOURCE_CHECK | TIME_CHECK | REPUTATION_CHECK

datatype ConnectionType = SIMPLE | CONDITIONAL | PREREQUISITE | DEPENDENCY | CHOICE
  | RESOURCE_GATED | TIME_BASED | REPUTATION_BASED | STATE_CHANGE

text \<open>The values of \<open>Dict[str, Any]\<close> fields.\<close>

datatype pyval = PyInt int | PyBool bool | PyStr string

record Port =
  port_id :: string
  name :: string
  port_type :: string
  data_type :: string
  connected_to :: "string list"
  port_position :: "int \<times> int"
  connection_limit :: int
  required :: bool

record Connection =
  conn_id :: string
  from_node :: string
  to_node :: string
  from_port :: string
  to_port :: string
  connection_type :: ConnectionType
  condition :: string
  priority :: int
  required_resources :: "(string \<times> int) list"
  required_flags :: "string list"
  required_reputation :: "(string \<times> int) list"
  time_condition :: string
  state_changes :: "(string \<times> pyval) list"
  reputation_changes :: "(string \<times> int) list"

record BaseNode =
  node_id :: string
  node_type :: NodeType
  title :: string
  node_position :: "int \<times> int"
  node_size :: "int \<times> int"
  color :: "int \<times> int \<times> int"
  ports :: "Port list"
  properties :: "(string \<times> pyval) list"
  collapsed :: bool
  needs_resize :: bool
  conditions :: "string list"
  node_required_resources :: "(string \<times> int) list"
  node_required_flags :: "string list"
  node_state_changes :: "(string \<times> pyval) list"

section \<open>The node manager\<close>

text \<open>
  \<open>NodeManager\<close> owns the two dictionaries and the id counter. Its two callbacks
  (\<open>on_node_changed\<close>, \<open>on_connection_changed\<close>) only notify the user interface and
  are left out: every operation below takes the manager and returns the updated manager
  beside its Python return value. Nodes own their ports, so the Port objects that the
  Python code mutates in place are addressed here by the node id and the first port of
  that node with the given port id, which is the object that the source's
  \<open>next((p for p in node.ports if p.id == ...), None)\<close> finds.
\<close>

record NodeManager =
  nodes :: "(string \<times> BaseNode) list"
  connections :: "(string \<times> Connection) list"
  next_id :: nat

definition empty_manager :: NodeManager where
  "empty_manager = \<lparr>nodes = [], connections = [], next_id = 1\<rparr>"

text \<open>Python's \<open>str\<close> of a natural number, for the generated ids.\<close>

definition digit_char :: "nat \<Rightarrow> char" where
  "digit_char d = char_of (48 + d)"

fun str_nat :: "nat \<Rightarrow> string" where
  "str_nat n = (if n < 10 then [digit_char n] else str_nat (n div 10) @ [digit_char (n mod 10)])"

declare str_nat.simps [simp del]

definition add_node :: "NodeManager \<Rightarrow> BaseNode \<Rightarrow> BaseNode \<times> NodeManager" where
  "add_node m node =
     (let (node1, m1) =
            (if node_id node = []
             then (node\<lparr>node_id := ''node_'' @ str_nat (next_id m)\<rparr>, m\<lparr>next_id := next_id m + 1\<rparr>)
             else (node, m))
      in (node1, m1\<lparr>nodes := AList.update (node_id node1) node1 (nodes m1)\<rparr>))"

definition get_node :: "NodeManager \<Rightarrow> string \<Rightarrow> BaseNode option" where
  "get_node m nid = map_of (nodes m) nid"

definition remove_node :: "NodeManager \<Rightarrow> string \<Rightarrow> bool \<times> NodeManager" where
  "remove_node m nid =
     (case map_of (nodes m) nid of
        None \<Rightarrow> (False, m)
      | Some node \<Rightarrow>
          (let connections_to_remove =
                 map fst (filter (\<lambda>(cid, conn). from_node conn = nid \<or> to_node conn = nid)
                                 (connections m));
               conns1 = foldl (\<lambda>cs cid. AList.delete cid cs) (connections m) connections_to_remove
           in (True, m\<lparr>connections := conns1, nodes := AList.delete nid (nodes m)\<rparr>)))"

text \<open>\<open>find_port\<close> is the generator expression with \<open>next\<close>: the first port with the id.\<close>

definition find_port :: "BaseNode \<Rightarrow> string \<Rightarrow> Port option" where
  "find_port node pid = find (\<lambda>p. port_id p = pid) (ports node)"

fun map_first :: "('a \<Rightarrow> bool) \<Rightarrow> ('a \<Rightarrow> 'a) \<Rightarrow> 'a list \<Rightarrow> 'a list" where
  "map_first P f [] = []"
| "map_first P f (x # xs) = (if P x then f x # xs else x # map_first P f xs)"

text \<open>In-place mutation of the port object found by \<open>find_port\<close> in node \<open>nid\<close>.\<close>

definition modify_port :: "string \<Rightarrow> string \<Rightarrow> (Port \<Rightarrow> Port) \<Rightarrow> NodeManager \<Rightarrow> NodeManager" where
  "modify_port nid pid f m =
     m\<lparr>nodes := AList.map_entry nid
          (\<lambda>n. n\<lparr>ports := map_first (\<lambda>p. port_id p = pid) f (ports n)\<rparr>) (nodes m)\<rparr>"

definition append_peer :: "string \<Rightarrow> Port \<Rightarrow> Port" where
  "append_peer q p = p\<lparr>connected_to := connected_to p @ [q]\<rparr>"

definition remove_peer :: "string \<Rightarrow> Port \<Rightarrow> Port" where
  "remove_peer q p = p\<lparr>connected_to := remove1 q (connected_to p)\<rparr>"

text \<open>
  \<open>add_connection\<close>: the argument \<open>props\<close> stands for the keyword arguments and the
  default-factory id (a fresh uuid4 unless the caller passes one); the endpoints and the
  connection type are overwritten by the positional arguments.
\<close>

definition add_connection ::
  "NodeManager \<Rightarrow> string \<Rightarrow> string \<Rightarrow> string \<Rightarrow> string \<Rightarrow> ConnectionType \<Rightarrow> Connection
     \<Rightarrow> Connection option \<times> NodeManager" where
  "add_connection m from_node_id from_port_id to_node_id to_port_id ctype props =
     (case (get_node m from_node_id, get_node m to_node_id) of
        (Some fnode, Some tnode) \<Rightarrow>
          (case (find_port fnode from_port_id, find_port tnode to_port_id) of
             (Some fport, Some tport) \<Rightarrow>
               if 0 < connection_limit fport
                  \<and> connection_limit fport \<le> int (length (connected_to fport))
               then (None, m)
               else
                 (let connection = props\<lparr>from_node := from_node_id, to_node := to_node_id,
                        from_port := from_port_id, to_port := to_port_id,
                        connection_type := ctype\<rparr>;
                      m1 = m\<lparr>connections :=
                             AList.update (conn_id connection) connection (connections m)\<rparr>;
                      m2 = modify_port from_node_id from_port_id (append_peer to_port_id) m1;
                      m3 = modify_port to_node_id to_port_id (append_peer from_port_id) m2
                  in (Some connection, m3))
           | _ \<Rightarrow> (None, m))
      | _ \<Rightarrow> (None, m))"

text \<open>
  \<open>remove_connection\<close>: both ports are looked up before either list is changed; the
  second membership test reads the destination port object after the first removal
  (\<open>get_port\<close> on the intermediate manager), as in the source.
\<close>

definition get_port :: "NodeManager \<Rightarrow> string \<Rightarrow> string \<Rightarrow> Port option" where
  "get_port m nid pid = (case get_node m nid of None \<Rightarrow> None | Some n \<Rightarrow> find_port n pid)"

definition remove_connection :: "NodeManager \<Rightarrow> string \<Rightarrow> bool \<times> NodeManager" where
  "remove_connection m cid =
     (case map_of (connections m) cid of
        None \<Rightarrow> (False, m)
      | Some connection \<Rightarrow>
          (let m2 =
                 (case (get_node m (from_node connection), get_node m (to_node connection)) of
                    (Some fnode, Some tnode) \<Rightarrow>
                      (let fport = find_port fnode (from_port connection);
                           tport = find_port tnode (to_port connection);
                           m1 = (case fport of
                                   Some fp \<Rightarrow>
                                     if to_port connection \<in> set (connected_to fp)
                                     then modify_port (from_node connection) (from_port connection)
                                            (remove_peer (to_port connection)) m
                                     else m
                                 | None \<Rightarrow> m)
                       in (case tport of
                             Some _ \<Rightarrow>
                               (case get_port m1 (to_node connection) (to_port connection) of
                                  Some tp \<Rightarrow>
                                    if from_port connection \<in> set (connected_to tp)
                                    then modify_port (to_node connection) (to_port connection)
                                           (remove_peer (from_port connection)) m1
                                    else m1
                                | None \<Rightarrow> m1)
                           | None \<Rightarrow> m1))
                  | _ \<Rightarrow> m)
           in (True, m2\<lparr>connections := AList.delete cid (connections m2)\<rparr>)))"

subsection \<open>Cycles among prerequisite and dependency connections\<close>

text \<open>
  \<open>detect_circular_dependencies\<close> runs the nested function \<open>has_cycle\<close>, which shares
  the list \<open>cycles\<close> and the sets \<open>visited\<close> and \<open>rec_stack\<close> with its caller; they
  are the state threaded through here. \<open>path.index\<close> raises \<open>ValueError\<close> when the
  element is absent, which is the \<open>Inl\<close> result. The recursion depth of the source is
  bounded by the number of nodes that can enter \<open>visited\<close>; the model counts it with a
  fuel argument, \<open>None\<close> meaning that the fuel ran out.
\<close>

datatype error = ValueError

record dcd_state =
  cycles :: "string list list"
  visited :: "string set"
  rec_stack :: "string set"

fun index_of :: "'a list \<Rightarrow> 'a \<Rightarrow> nat option" where
  "index_of [] x = None"
| "index_of (y # ys) x = (if y = x then Some 0 else map_option Suc (index_of ys x))"

definition is_dependency :: "Connection \<Rightarrow> bool" where
  "is_dependency conn \<longleftrightarrow> connection_type conn \<in> set [PREREQUISITE, DEPENDENCY]"

fun has_cycle ::
    "nat \<Rightarrow> Connection list \<Rightarrow> string \<Rightarrow> string list \<Rightarrow> dcd_state
       \<Rightarrow> (error + bool \<times> dcd_state) option"
  and has_cycle_loop ::
    "nat \<Rightarrow> Connection list \<Rightarrow> Connection list \<Rightarrow> string \<Rightarrow> string list \<Rightarrow> dcd_state
       \<Rightarrow> (error + bool \<times> dcd_state) option" where
  "has_cycle 0 conns temp_node_id path st = None"
| "has_cycle (Suc n) conns temp_node_id path st =
     (if temp_node_id \<in> rec_stack st then
        (case index_of path temp_node_id of
           None \<Rightarrow> Some (Inl ValueError)
         | Some cycle_start \<Rightarrow>
             Some (Inr (True,
               st\<lparr>cycles := cycles st @ [drop cycle_start path @ [temp_node_id]]\<rparr>)))
      else if temp_node_id \<in> visited st then Some (Inr (False, st))
      else has_cycle_loop n conns conns temp_node_id path
             (st\<lparr>visited := insert temp_node_id (visited st),
                 rec_stack := insert temp_node_id (rec_stack st)\<rparr>))"
| "has_cycle_loop n conns [] temp_node_id path st =
     Some (Inr (False, st\<lparr>rec_stack := rec_stack st - {temp_node_id}\<rparr>))"
| "has_cycle_loop n conns (conn # rest) temp_node_id path st =
     (if from_node conn = temp_node_id \<and> is_dependency conn then
        (case has_cycle n conns (to_node conn) (path @ [temp_node_id]) st of
           None \<Rightarrow> None
         | Some (Inl e) \<Rightarrow> Some (Inl e)
         | Some (Inr (True, st1)) \<Rightarrow> Some (Inr (True, st1))
         | Some (Inr (False, st1)) \<Rightarrow> has_cycle_loop n conns rest temp_node_id path st1)
      else has_cycle_loop n conns rest temp_node_id path st)"

fun detect_roots ::
    "nat \<Rightarrow> Connection list \<Rightarrow> string list \<Rightarrow> dcd_state \<Rightarrow> (error + dcd_state) option" where
  "detect_roots n conns [] st = Some (Inr st)"
| "detect_roots n conns (nid # rest) st =
     (if nid \<notin> visited st then
        (case has_cycle n conns nid [] st of
           None \<Rightarrow> None
         | Some (Inl e) \<Rightarrow> Some (Inl e)
         | Some (Inr (_, st1)) \<Rightarrow> detect_roots n conns rest st1)
      else detect_roots n conns rest st)"

definition detect_circular_dependencies :: "NodeManager \<Rightarrow> (error + string list list) option" where
  "detect_circular_dependencies m =
     (case detect_roots (length (nodes m) + length (connections m) + 1)
             (map snd (connections m)) (map fst (nodes m))
             \<lparr>cycles = [], visited = {}, rec_stack = {}\<rparr> of
        None \<Rightarrow> None
      | Some (Inl e) \<Rightarrow> Some (Inl e)
      | Some (Inr st) \<Rightarrow> Some (Inr (cycles st)))"

subsection \<open>Export and import of connections\<close>

text \<open>
  A JSON object of a connection; on import every key may be missing, so each field is an
  option. \<open>data[key]\<close> on a missing key raises \<open>KeyError\<close>, which the loop body of
  \<open>import_connections\<close> catches: the item is skipped. \<open>data.get("id", ...)\<close> falls
  back to a new uuid4, here \<open>uuid i\<close> for the item at position \<open>i\<close>.
\<close>

record ConnectionData =
  d_id :: "string option"
  d_from_node :: "string option"
  d_to_node :: "string option"
  d_from_port :: "string option"
  d_to_port :: "string option"
  d_connection_type :: "string option"
  d_condition :: "string option"
  d_priority :: "int option"
  d_required_resources :: "(string \<times> int) list option"
  d_required_flags :: "string list option"
  d_required_reputation :: "(string \<times> int) list option"
  d_time_condition :: "string option"
  d_state_changes :: "(string \<times> pyval) list option"
  d_reputation_changes :: "(string \<times> int) list option"

fun connection_type_value :: "ConnectionType \<Rightarrow> string" where
  "connection_type_value SIMPLE = ''simple''"
| "connection_type_value CONDITIONAL = ''conditional''"
| "connection_type_value PREREQUISITE = ''prerequisite''"
| "connection_type_value DEPENDENCY = ''dependency''"
| "connection_type_value CHOICE = ''choice''"
| "connection_type_value RESOURCE_GATED = ''resource_gated''"
| "connection_type_value TIME_BASED = ''time_based''"
| "connection_type_value REPUTATION_BASED = ''reputation_based''"
| "connection_type_value STATE_CHANGE = ''state_change''"

definition all_connection_types :: "ConnectionType list" where
  "all_connection_types = [SIMPLE, CONDITIONAL, PREREQUISITE, DEPENDENCY, CHOICE,
     RESOURCE_GATED, TIME_BASED, REPUTATION_BASED, STATE_CHANGE]"

text \<open>The enum constructor \<open>ConnectionType(s)\<close>; \<open>None\<close> is its \<open>ValueError\<close>.\<close>

definition ConnectionType_of :: "string \<Rightarrow> ConnectionType option" where
  "ConnectionType_of s = find (\<lambda>t. connection_type_value t = s) all_connection_types"

definition connection_data :: "Connection \<Rightarrow> ConnectionData" where
  "connection_data connection =
     \<lparr>d_id = Some (conn_id connection),
      d_from_node = Some (from_node connection),
      d_to_node = Some (to_node connection),
      d_from_port = Some (from_port connection),
      d_to_port = Some (to_port connection),
      d_connection_type = Some (connection_type_value (connection_type connection)),
      d_condition = Some (condition connection),
      d_priority = Some (priority connection),
      d_required_resources = Some (required_resources connection),
      d_required_flags = Some (required_flags connection),
      d_required_reputation = Some (required_reputation connection),
      d_time_condition = Some (time_condition connection),
      d_state_changes = Some (state_changes connection),
      d_reputation_changes = Some (reputation_changes connection)\<rparr>"

definition export_connections :: "NodeManager \<Rightarrow> ConnectionData list" where
  "export_connections m = map (\<lambda>(cid, connection). connection_data connection) (connections m)"

definition get_default :: "'a option \<Rightarrow> 'a \<Rightarrow> 'a" where
  "get_default v d = (case v of None \<Rightarrow> d | Some x \<Rightarrow> x)"

definition connection_of_data :: "string \<Rightarrow> ConnectionData \<Rightarrow> Connection option" where
  "connection_of_data fresh data =
     (let connection_type_str = get_default (d_connection_type data) ''simple'';
          ctype = (case ConnectionType_of connection_type_str of None \<Rightarrow> SIMPLE | Some t \<Rightarrow> t)
      in case (d_from_node data, d_to_node data, d_from_port data, d_to_port data) of
           (Some fn, Some tn, Some fp, Some tp) \<Rightarrow>
             Some \<lparr>conn_id = get_default (d_id data) fresh,
                   from_node = fn, to_node = tn, from_port = fp, to_port = tp,
                   connection_type = ctype,
                   condition = get_default (d_condition data) [],
                   priority = get_default (d_priority data) 0,
                   required_resources = get_default (d_required_resources data) [],
                   required_flags = get_default (d_required_flags data) [],
                   required_reputation = get_default (d_required_reputation data) [],
                   time_condition = get_default (d_time_condition data) [],
                   state_changes = get_default (d_state_changes data) [],
                   reputation_changes = get_default (d_reputation_changes data) []\<rparr>
         | _ \<Rightarrow> None)"

definition add_peer_if_absent :: "string \<Rightarrow> Port \<Rightarrow> Port" where
  "add_peer_if_absent q p = (if q \<notin> set (connected_to p) then append_peer q p else p)"

definition import_one :: "NodeManager \<Rightarrow> Connection \<Rightarrow> NodeManager" where
  "import_one m connection =
     (let m1 = m\<lparr>connections :=
                  AList.update (conn_id connection) connection (connections m)\<rparr>
      in case (get_node m1 (from_node connection), get_node m1 (to_node connection)) of
           (Some fnode, Some tnode) \<Rightarrow>
             (case (find_port fnode (from_port connection),
                    find_port tnode (to_port connection)) of
                (Some fport, Some tport) \<Rightarrow>
                  modify_port (to_node connection) (to_port connection)
                    (add_peer_if_absent (from_port connection))
                    (modify_port (from_node connection) (from_port connection)
                       (add_peer_if_absent (to_port connection)) m1)
              | _ \<Rightarrow> m1)
         | _ \<Rightarrow> m1)"

fun import_loop ::
    "(nat \<Rightarrow> string) \<Rightarrow> nat \<Rightarrow> ConnectionData list \<Rightarrow> NodeManager \<Rightarrow> NodeManager" where
  "import_loop uuid i [] m = m"
| "import_loop uuid i (data # rest) m =
     (case connection_of_data (uuid i) data of
        None \<Rightarrow> import_loop uuid (Suc i) rest m
      | Some connection \<Rightarrow> import_loop uuid (Suc i) rest (import_one m connection))"

definition import_connections ::
    "(nat \<Rightarrow> string) \<Rightarrow> NodeManager \<Rightarrow> ConnectionData list \<Rightarrow> NodeManager" where
  "import_connections uuid m connections_data =
     import_loop uuid 0 connections_data (m\<lparr>connections := []\<rparr>)"

section \<open>The validation engine (storyforge/dialogs.py)\<close>

text \<open>
  A finding is a Python dict; the keys \<open>node_id\<close>, \<open>connection_id\<close> and
  \<open>nodes_involved\<close> are present in some findings only, so they are options.
\<close>

record Issue =
  issue_id :: string
  level :: string
  issue_title :: string
  description :: string
  issue_node_id :: "string option"
  issue_connection_id :: "string option"
  nodes_involved :: "string list option"
  auto_fixable :: bool
  suggested_fix :: string

text \<open>Python's \<open>sep.join(xs)\<close>.\<close>

fun join :: "string \<Rightarrow> string list \<Rightarrow> string" where
  "join sep [] = []"
| "join sep [x] = x"
| "join sep (x # y # ys) = x @ sep @ join sep (y # ys)"

text \<open>
  The adjacency dict \<open>graph\<close> that both graph analyses build from all connections,
  whatever their type; \<open>graph_get\<close> is \<open>graph.get(node, [])\<close>.
\<close>

type_synonym graph = "(string \<times> string list) list"

definition graph_add :: "graph \<Rightarrow> Connection \<Rightarrow> graph" where
  "graph_add graph conn =
     (let g1 = (if map_of graph (from_node conn) = None
                then AList.update (from_node conn) [] graph else graph)
      in AList.map_entry (from_node conn) (\<lambda>ns. ns @ [to_node conn]) g1)"

definition build_graph :: "(string \<times> Connection) list \<Rightarrow> graph" where
  "build_graph conns = foldl graph_add [] (map snd conns)"

definition graph_get :: "graph \<Rightarrow> string \<Rightarrow> string list" where
  "graph_get graph v = (case map_of graph v of None \<Rightarrow> [] | Some ns \<Rightarrow> ns)"

subsection \<open>Circular dependencies over all connections\<close>

text \<open>
  \<open>_validate_circular_dependencies\<close>: the nested \<open>dfs_visit\<close> shares the dict
  \<open>colors\<close> and the list \<open>issues\<close> with its caller. The dict \<open>connection_map\<close> of the
  source is written but never read, and is left out. The recursion depth is counted by a
  fuel argument as before.
\<close>

datatype dfs_color = WHITE | GRAY | BLACK

record vcd_state =
  colors :: "string \<rightharpoonup> dfs_color"
  issues :: "Issue list"

definition cycle_issue :: "string \<Rightarrow> string list \<Rightarrow> nat \<Rightarrow> Issue" where
  "cycle_issue temp_node cycle_nodes n_issues =
     (let cycle_description =
            map (\<lambda>i. (cycle_nodes ! i) @ '' -> '' @ (cycle_nodes ! (i + 1)))
                [0 ..< length cycle_nodes - 1]
      in \<lparr>issue_id = ''circular_dependency_'' @ temp_node @ ''_'' @ str_nat n_issues,
          level = ''error'',
          issue_title = ''Circular dependency detected'',
          description = ''Circular dependency found: '' @ join '' -> '' cycle_description,
          issue_node_id = None,
          issue_connection_id = None,
          nodes_involved = Some (butlast cycle_nodes),
          auto_fixable = False,
          suggested_fix =
            ''Remove one of the connections in the cycle to break the circular dependency.''\<rparr>)"

fun dfs_visit ::
    "nat \<Rightarrow> graph \<Rightarrow> string \<Rightarrow> string list \<Rightarrow> vcd_state \<Rightarrow> (bool \<times> vcd_state) option"
  and dfs_visit_loop ::
    "nat \<Rightarrow> graph \<Rightarrow> string list \<Rightarrow> string \<Rightarrow> string list \<Rightarrow> vcd_state
       \<Rightarrow> (bool \<times> vcd_state) option" where
  "dfs_visit 0 graph temp_node path st = None"
| "dfs_visit (Suc n) graph temp_node path st =
     (let st1 = (if colors st temp_node = None
                 then st\<lparr>colors := (colors st)(temp_node \<mapsto> WHITE)\<rparr> else st)
      in if colors st1 temp_node = Some GRAY then
           (case index_of path temp_node of
              Some cycle_start_idx \<Rightarrow>
                Some (True, st1\<lparr>issues := issues st1 @
                  [cycle_issue temp_node (drop cycle_start_idx path @ [temp_node])
                     (length (issues st1))]\<rparr>)
            | None \<Rightarrow> Some (True, st1))
         else if colors st1 temp_node = Some BLACK then Some (False, st1)
         else dfs_visit_loop n graph (graph_get graph temp_node) temp_node (path @ [temp_node])
                (st1\<lparr>colors := (colors st1)(temp_node \<mapsto> GRAY)\<rparr>))"
| "dfs_visit_loop n graph [] temp_node current_path st =
     Some (False, st\<lparr>colors := (colors st)(temp_node \<mapsto> BLACK)\<rparr>)"
| "dfs_visit_loop n graph (neighbor # rest) temp_node current_path st =
     (case dfs_visit n graph neighbor current_path st of
        None \<Rightarrow> None
      | Some (True, st1) \<Rightarrow> Some (True, st1)
      | Some (False, st1) \<Rightarrow> dfs_visit_loop n graph rest temp_node current_path st1)"

fun dfs_roots :: "nat \<Rightarrow> graph \<Rightarrow> string list \<Rightarrow> vcd_state \<Rightarrow> vcd_state option" where
  "dfs_roots n graph [] st = Some st"
| "dfs_roots n graph (node # rest) st =
     (if colors st node = None \<or> colors st node = Some WHITE then
        (case dfs_visit n graph node [] st of
           None \<Rightarrow> None
         | Some (_, st1) \<Rightarrow> dfs_roots n graph rest st1)
      else dfs_roots n graph rest st)"

definition validate_circular_dependencies :: "(string \<times> Connection) list \<Rightarrow> Issue list option" where
  "validate_circular_dependencies conns =
     (let graph = build_graph conns
      in map_option issues
           (dfs_roots (2 * length conns + 1) graph (map fst graph)
              \<lparr>colors = Map.empty, issues = []\<rparr>))"

subsection \<open>Unreachable nodes\<close>


definition quote :: "string \<Rightarrow> string" where
  "quote s = [CHR 0x22] @ s @ [CHR 0x22]"




subsection \<open>Condition syntax\<close>

text \<open>
  \<open>str.strip()\<close> removes the characters for which \<open>str.isspace\<close> holds; of the code
  points below 256, which are the ones a HOL character has, these are the following.
\<close>

definition is_space :: "char \<Rightarrow> bool" where
  "is_space c \<longleftrightarrow> (of_char c :: nat) \<in> set [9, 10, 11, 12, 13, 28, 29, 30, 31, 32, 133, 160]"

definition strip :: "string \<Rightarrow> string" where
  "strip s = rev (dropWhile is_space (rev (dropWhile is_space s)))"

fun starts_with :: "string \<Rightarrow> string \<Rightarrow> bool" where
  "starts_with [] s = True"
| "starts_with (p # ps) [] = False"
| "starts_with (p # ps) (c # cs) = (p = c \<and> starts_with ps cs)"

text \<open>\<open>contains pattern s\<close> is Python's \<open>pattern in s\<close> on strings.\<close>

fun contains :: "string \<Rightarrow> string \<Rightarrow> bool" where
  "contains pat [] = (pat = [])"
| "contains pat (c # cs) = (starts_with pat (c # cs) \<or> contains pat cs)"

definition valid_patterns :: "string list" where
  "valid_patterns =
     [''player.level'', ''player.gold'', ''player.'', ''flags.'', ''reputation.'',
      ''>'', ''<'', ''>='', ''<='', ''=='', ''!='', ''and'', ''or'', ''not'',
      ''True'', ''False'', ''has_item'', ''quest_completed'']"

definition is_valid_condition :: "string \<Rightarrow> bool" where
  "is_valid_condition cond =
     (if cond = [] \<or> strip cond = [] then True
      else list_ex (\<lambda>pattern. contains pattern cond) valid_patterns)"

definition node_condition_issue :: "string \<Rightarrow> BaseNode \<Rightarrow> string \<Rightarrow> Issue" where
  "node_condition_issue nid node cond =
     \<lparr>issue_id = ''invalid_condition_'' @ nid,
      level = ''error'',
      issue_title = ''Invalid condition syntax'',
      description = ''Node '' @ quote (title node) @ '' has invalid condition: '' @ cond,
      issue_node_id = Some nid,
      issue_connection_id = None,
      nodes_involved = None,
      auto_fixable = False,
      suggested_fix = ''Fix the condition syntax or remove the condition.''\<rparr>"

definition connection_condition_issue :: "string \<Rightarrow> Connection \<Rightarrow> Issue" where
  "connection_condition_issue cid conn =
     \<lparr>issue_id = ''invalid_connection_condition_'' @ cid,
      level = ''error'',
      issue_title = ''Invalid connection condition'',
      description = ''Connection has invalid condition: '' @ condition conn,
      issue_node_id = None,
      issue_connection_id = Some cid,
      nodes_involved = None,
      auto_fixable = False,
      suggested_fix = ''Fix the condition syntax.''\<rparr>"

definition validate_conditions ::
    "(string \<times> BaseNode) list \<Rightarrow> (string \<times> Connection) list \<Rightarrow> Issue list" where
  "validate_conditions nodes_d conns =
     (let issues1 =
            foldl (\<lambda>acc (nid, node).
                     foldl (\<lambda>acc1 cond.
                              if \<not> is_valid_condition cond
                              then acc1 @ [node_condition_issue nid node cond] else acc1)
                           acc (conditions node))
                  [] nodes_d
      in foldl (\<lambda>acc (cid, conn).
                  if condition conn \<noteq> [] \<and> \<not> is_valid_condition (condition conn)
                  then acc @ [connection_condition_issue cid conn] else acc)
               issues1 conns)"

section \<open>Default-constructed entities\<close>

text \<open>
  The dataclass constructors with every field but the id at its default, used to write
  concrete graphs below.
\<close>

definition Port_default :: "string \<Rightarrow> Port" where
  "Port_default pid =
     \<lparr>port_id = pid, name = [], port_type = [], data_type = [], connected_to = [],
      port_position = (0, 0), connection_limit = - 1, required = False\<rparr>"

definition Connection_default :: "string \<Rightarrow> Connection" where
  "Connection_default cid =
     \<lparr>conn_id = cid, from_node = [], to_node = [], from_port = [], to_port = [],
      connection_type = SIMPLE, condition = [], priority = 0, required_resources = [],
      required_flags = [], required_reputation = [], time_condition = [],
      state_changes = [], reputation_changes = []\<rparr>"

definition BaseNode_default :: "string \<Rightarrow> BaseNode" where
  "BaseNode_default nid =
     \<lparr>node_id = nid, node_type = DIALOGUE, title = [], node_position = (0, 0),
      node_size = (200, 100), color = (100, 100, 100), ports = [], properties = [],
      collapsed = False, needs_resize = True, conditions = [],
      node_required_resources = [], node_required_flags = [], node_state_changes = []\<rparr>"

text \<open>An edge between two nodes, with the ports left empty: what the validators read.\<close>

definition edge :: "string \<Rightarrow> string \<Rightarrow> string \<Rightarrow> ConnectionType \<Rightarrow> string \<times> Connection" where
  "edge cid a b ctype =
     (cid, (Connection_default cid)\<lparr>from_node := a, to_node := b, connection_type := ctype\<rparr>)"

section \<open>Concrete stores\<close>

definition node_with_port :: "string \<Rightarrow> string \<Rightarrow> string \<Rightarrow> int \<Rightarrow> BaseNode" where
  "node_with_port nid pid ptype lim =
     (BaseNode_default nid)\<lparr>ports :=
        [(Port_default pid)\<lparr>port_type := ptype, connection_limit := lim\<rparr>]\<rparr>"

text \<open>
  Executable reading of the consistency invariant's second half: the peer entries of
  ports for which the connection map holds no connection between the two port ids.
\<close>

definition has_connection :: "NodeManager \<Rightarrow> string \<Rightarrow> string \<Rightarrow> bool" where
  "has_connection m p q \<longleftrightarrow>
     list_ex (\<lambda>(cid, c). (from_port c = p \<and> to_port c = q) \<or> (from_port c = q \<and> to_port c = p))
       (connections m)"

definition dangling_peers :: "NodeManager \<Rightarrow> (string \<times> string \<times> string) list" where
  "dangling_peers m =
     concat (map (\<lambda>(nid, n).
        concat (map (\<lambda>p. map (\<lambda>q. (nid, port_id p, q))
                              (filter (\<lambda>q. \<not> has_connection m (port_id p) q) (connected_to p)))
                    (ports n)))
        (nodes m))"

text \<open>Sequences of the four mutating operations, run from the empty store.\<close>

datatype store_op =
    AddNode BaseNode
  | RemoveNode string
  | AddConnection string string string string ConnectionType Connection
  | RemoveConnection string

fun apply_op :: "NodeManager \<Rightarrow> store_op \<Rightarrow> NodeManager" where
  "apply_op m (AddNode node) = snd (add_node m node)"
| "apply_op m (RemoveNode nid) = snd (remove_node m nid)"
| "apply_op m (AddConnection fn fp tn tp ctype props) = snd (add_connection m fn fp tn tp ctype props)"
| "apply_op m (RemoveConnection cid) = snd (remove_connection m cid)"

definition run_ops :: "store_op list \<Rightarrow> NodeManager" where
  "run_ops ops = foldl apply_op empty_manager ops"

text \<open>X with an output port of limit 1, Y with an input port of limit 1, Z unlimited.\<close>

definition store_xyz :: NodeManager where
  "store_xyz =
     run_ops [AddNode (node_with_port ''X'' ''px'' ''output'' 1),
              AddNode (node_with_port ''Y'' ''py'' ''input'' 1),
              AddNode (node_with_port ''Z'' ''pz'' ''output'' (- 1))]"

definition store_xy :: NodeManager where
  "store_xy =
     snd (add_connection store_xyz ''X'' ''px'' ''Y'' ''py'' SIMPLE (Connection_default ''c1''))"

text \<open>The store \<open>store_xy\<close> with the node X taken out of the node map only.\<close>

definition store_gone :: NodeManager where
  "store_gone = store_xy\<lparr>nodes := AList.delete ''X'' (nodes store_xy)\<rparr>"

text \<open>Three nodes with prerequisite connections A to B, B to A and C to A.\<close>

definition store_abc :: NodeManager where
  "store_abc =
     run_ops [AddNode (node_with_port ''A'' ''pa'' ''output'' (- 1)),
              AddNode (node_with_port ''B'' ''pb'' ''output'' (- 1)),
              AddNode (node_with_port ''C'' ''pc'' ''output'' (- 1)),
              AddConnection ''A'' ''pa'' ''B'' ''pb'' PREREQUISITE (Connection_default ''c1''),
              AddConnection ''B'' ''pb'' ''A'' ''pa'' PREREQUISITE (Connection_default ''c2''),
              AddConnection ''C'' ''pc'' ''A'' ''pa'' PREREQUISITE (Connection_default ''c3'')]"

section \<open>The node manager: violated and confirmed properties\<close>

text \<open>
  Claim C1 (consistency of the connection map and the peer lists in every reachable
  store). The store reached from the empty one by adding the nodes A and B, connecting
  A to B and removing A has no connection left, and the port of B still lists the port
  of A: \<open>remove_node\<close> deletes the incident connections from the connection map
  without touching the peer list of the surviving port, which \<open>remove_connection\<close>
  does.
\<close>

theorem reachable_store_dangling_peer:
  "dangling_peers
     (run_ops [AddNode (node_with_port ''A'' ''pa'' ''output'' (- 1)),
               AddNode (node_with_port ''B'' ''pb'' ''input'' (- 1)),
               AddConnection ''A'' ''pa'' ''B'' ''pb'' SIMPLE (Connection_default ''c1'')]) = []
   \<and> dangling_peers
     (run_ops [AddNode (node_with_port ''A'' ''pa'' ''output'' (- 1)),
               AddNode (node_with_port ''B'' ''pb'' ''input'' (- 1)),
               AddConnection ''A'' ''pa'' ''B'' ''pb'' SIMPLE (Connection_default ''c1''),
               RemoveNode ''A'']) = [(''B'', ''pb'', ''pa'')]"
  by code_simp

text \<open>
  Claim C2 (no port exceeds a positive connection limit). \<open>add_connection\<close> tests the
  limit of the source port only: on the store where the input port of Y (limit 1) is
  already connected to X, connecting Z to Y succeeds and leaves that port with two peers.
\<close>

theorem destination_limit_exceeded:
  "fst (add_connection store_xy ''Z'' ''pz'' ''Y'' ''py'' SIMPLE (Connection_default ''c2'')) \<noteq> None
   \<and> map_option (\<lambda>p. (connection_limit p, connected_to p))
        (get_port (snd (add_connection store_xy ''Z'' ''pz'' ''Y'' ''py'' SIMPLE
                          (Connection_default ''c2''))) ''Y'' ''py'')
     = Some (1, [''px'', ''pz''])"
  by code_simp

text \<open>
  Claim C3 (failure of \<open>add_connection\<close>). If either node id is unknown, either port id
  is not a port of its node, or the source port has a positive limit that its peer list
  has reached, \<open>add_connection\<close> returns \<open>None\<close> and the manager it was given; and
  whenever it returns \<open>None\<close>, the manager is unchanged (no connection added, no peer
  list changed).
\<close>

theorem add_connection_fails_cleanly:
  "((get_node m fn = None \<or> get_node m tn = None
      \<or> get_port m fn fp = None \<or> get_port m tn tp = None
      \<or> (\<exists>p. get_port m fn fp = Some p \<and> 0 < connection_limit p
               \<and> connection_limit p \<le> int (length (connected_to p))))
     \<longrightarrow> add_connection m fn fp tn tp ct props = (None, m))
   \<and> (fst (add_connection m fn fp tn tp ct props) = None
     \<longrightarrow> snd (add_connection m fn fp tn tp ct props) = m)"
  by (auto simp: add_connection_def get_port_def Let_def split: option.splits)

text \<open>
  The scenario of the claim: X has an output port of limit 1; connecting X to Y
  succeeds, connecting X to Z then fails and the peer list of X's port keeps length 1.
\<close>

theorem add_connection_fails_cleanly_witness:
  "fst (add_connection store_xyz ''X'' ''px'' ''Y'' ''py'' SIMPLE (Connection_default ''c1'')) \<noteq> None
   \<and> (\<exists>p. get_port store_xy ''X'' ''px'' = Some p \<and> 0 < connection_limit p
            \<and> connection_limit p \<le> int (length (connected_to p)))
   \<and> add_connection store_xy ''X'' ''px'' ''Z'' ''pz'' SIMPLE (Connection_default ''c2'')
       = (None, store_xy)
   \<and> map_option (\<lambda>p. length (connected_to p)) (get_port store_xy ''X'' ''px'') = Some 1"
proof -
  have ok: "fst (add_connection store_xyz ''X'' ''px'' ''Y'' ''py'' SIMPLE
                   (Connection_default ''c1'')) \<noteq> None"
    by code_simp
  have px: "get_port store_xy ''X'' ''px'' =
      Some ((Port_default ''px'')\<lparr>port_type := ''output'', connection_limit := 1,
              connected_to := [''py'']\<rparr>)"
    by code_simp
  then have full: "\<exists>p. get_port store_xy ''X'' ''px'' = Some p \<and> 0 < connection_limit p
      \<and> connection_limit p \<le> int (length (connected_to p))"
    by simp
  with add_connection_fails_cleanly
         [of store_xy "''X''" "''Z''" "''px''" "''pz''" SIMPLE "Connection_default ''c2''"]
  have "add_connection store_xy ''X'' ''px'' ''Z'' ''pz'' SIMPLE (Connection_default ''c2'')
          = (None, store_xy)"
    by blast
  with ok px full show ?thesis by simp
qed

text \<open>
  Claim C4 (cascade of \<open>remove_node\<close>). Removing Y from the store in which X is
  connected to Y returns \<open>True\<close>, removes the node and the one incident connection, and
  leaves the port of X with a peer entry for which no connection exists.
\<close>

theorem remove_node_leaves_dangling_peer:
  "fst (remove_node store_xy ''Y'') = True
   \<and> map fst (nodes (snd (remove_node store_xy ''Y''))) = [''X'', ''Z'']
   \<and> connections (snd (remove_node store_xy ''Y'')) = []
   \<and> dangling_peers store_xy = []
   \<and> dangling_peers (snd (remove_node store_xy ''Y'')) = [(''X'', ''px'', ''py'')]"
  by code_simp

text \<open>
  Claim C8 (cycles returned by \<open>detect_circular_dependencies\<close>). After a cycle is
  found, \<open>has_cycle\<close> returns without clearing \<open>rec_stack\<close>; a later root that
  reaches a node left there looks it up in a path that does not hold it. With the
  prerequisite connections A to B, B to A and C to A the call ends in \<open>ValueError\<close>
  and returns no list of cycles.
\<close>

theorem detect_circular_dependencies_raises:
  "detect_circular_dependencies store_abc = Some (Inl ValueError)"
  by code_simp

text \<open>
  Claim C10 (\<open>remove_connection\<close> with a missing endpoint node). For every connection
  id present in the connection map, the connection is deleted and the result is
  \<open>True\<close>; when the source node or the destination node is not in the node map, the
  node map, and so every peer list, is left as it was.
\<close>

theorem remove_connection_missing_endpoint:
  "map_of (connections m) cid = Some c \<Longrightarrow>
     fst (remove_connection m cid) = True
   \<and> connections (snd (remove_connection m cid)) = AList.delete cid (connections m)
   \<and> map_of (connections (snd (remove_connection m cid))) cid = None
   \<and> ((get_node m (from_node c) = None \<or> get_node m (to_node c) = None)
        \<longrightarrow> nodes (snd (remove_connection m cid)) = nodes m)"
  by (auto simp: remove_connection_def Let_def modify_port_def AList.delete_conv'
           split: option.splits)

text \<open>
  With X missing from the node map, removing the connection from X to Y succeeds and the
  port of Y keeps its entry for the port of X.
\<close>

theorem remove_connection_missing_endpoint_witness:
  "map_of (connections store_gone) ''c1'' \<noteq> None
   \<and> get_node store_gone ''X'' = None
   \<and> fst (remove_connection store_gone ''c1'') = True
   \<and> connections (snd (remove_connection store_gone ''c1'')) = []
   \<and> nodes (snd (remove_connection store_gone ''c1'')) = nodes store_gone
   \<and> map_option connected_to (get_port (snd (remove_connection store_gone ''c1'')) ''Y'' ''py'')
       = Some [''px'']"
proof -
  have c: "map_of (connections store_gone) ''c1'' =
      Some ((Connection_default ''c1'')\<lparr>from_node := ''X'', to_node := ''Y'',
              from_port := ''px'', to_port := ''py''\<rparr>)"
    by code_simp
  have gone: "get_node store_gone ''X'' = None"
    by code_simp
  have del: "AList.delete ''c1'' (connections store_gone) = []"
    by code_simp
  have py: "map_option connected_to (get_port store_gone ''Y'' ''py'') = Some [''px'']"
    by code_simp
  from remove_connection_missing_endpoint [OF c] gone del
  have r: "fst (remove_connection store_gone ''c1'') = True"
    "connections (snd (remove_connection store_gone ''c1'')) = []"
    "nodes (snd (remove_connection store_gone ''c1'')) = nodes store_gone"
    by simp_all
  have "get_port (snd (remove_connection store_gone ''c1'')) ''Y'' ''py''
          = get_port store_gone ''Y'' ''py''"
    using r(3) by (simp add: get_port_def get_node_def)
  with c gone r py show ?thesis by simp
qed

section \<open>Condition syntax: the check against its description\<close>

text \<open>
  The description of the check, in its own words: a condition is an error when it is not
  blank and none of the listed tokens occurs in it.
\<close>

definition whitelist :: "string list" where
  "whitelist =
     [''player.'', ''flags.'', ''reputation.'', ''>'', ''<'', ''>='', ''<='', ''=='', ''!='',
      ''and'', ''or'', ''not'', ''True'', ''False'', ''has_item'', ''quest_completed'']"

definition occurs_in :: "string \<Rightarrow> string \<Rightarrow> bool" where
  "occurs_in t s \<longleftrightarrow> (\<exists>pre suf. s = pre @ t @ suf)"

definition blank :: "string \<Rightarrow> bool" where
  "blank s \<longleftrightarrow> (\<forall>c \<in> set s. is_space c)"

definition condition_error_spec :: "string \<Rightarrow> bool" where
  "condition_error_spec cond \<longleftrightarrow> \<not> blank cond \<and> (\<forall>t \<in> set whitelist. \<not> occurs_in t cond)"

lemma starts_with_iff: "starts_with p s \<longleftrightarrow> (\<exists>suf. s = p @ suf)"
  by (induction p s rule: starts_with.induct) auto

lemma contains_iff: "contains p s \<longleftrightarrow> occurs_in p s"
proof (induction s)
  case Nil
  then show ?case by (auto simp: occurs_in_def)
next
  case (Cons c cs)
  have "occurs_in p (c # cs) \<longleftrightarrow> (\<exists>suf. c # cs = p @ suf) \<or> occurs_in p cs"
  proof
    assume "occurs_in p (c # cs)"
    then obtain pre suf where e: "c # cs = pre @ p @ suf" by (auto simp: occurs_in_def)
    show "(\<exists>suf. c # cs = p @ suf) \<or> occurs_in p cs"
    proof (cases pre)
      case Nil
      with e show ?thesis by auto
    next
      case (Cons a pre')
      with e have "cs = pre' @ p @ suf" by simp
      then show ?thesis by (auto simp: occurs_in_def)
    qed
  next
    assume "(\<exists>suf. c # cs = p @ suf) \<or> occurs_in p cs"
    then show "occurs_in p (c # cs)"
    proof
      assume "\<exists>suf. c # cs = p @ suf"
      then obtain suf where "c # cs = [] @ p @ suf" by auto
      then show ?thesis unfolding occurs_in_def by blast
    next
      assume "occurs_in p cs"
      then obtain pre suf where "cs = pre @ p @ suf" by (auto simp: occurs_in_def)
      then have "c # cs = (c # pre) @ p @ suf" by simp
      then show ?thesis unfolding occurs_in_def by blast
    qed
  qed
  with Cons show ?case by (simp add: starts_with_iff)
qed

lemma dropWhile_all: "(\<forall>x \<in> set (dropWhile P xs). P x) \<longleftrightarrow> (\<forall>x \<in> set xs. P x)"
  by (induction xs) auto

lemma strip_empty_iff: "strip s = [] \<longleftrightarrow> blank s"
  by (simp add: strip_def blank_def dropWhile_eq_Nil_conv dropWhile_all)

lemma occurs_in_longer: "occurs_in (t @ u) s \<Longrightarrow> occurs_in t s"
proof -
  assume "occurs_in (t @ u) s"
  then obtain pre suf where "s = pre @ (t @ u) @ suf" by (auto simp: occurs_in_def)
  then have "s = pre @ t @ (u @ suf)" by simp
  then show ?thesis unfolding occurs_in_def by blast
qed

lemma valid_patterns_whitelist:
  "list_ex (\<lambda>pattern. contains pattern cond) valid_patterns
     \<longleftrightarrow> (\<exists>t \<in> set whitelist. occurs_in t cond)"
proof -
  have a: "occurs_in ''player.level'' cond \<Longrightarrow> occurs_in ''player.'' cond"
    using occurs_in_longer [of "''player.''" "''level''" cond] by simp
  have b: "occurs_in ''player.gold'' cond \<Longrightarrow> occurs_in ''player.'' cond"
    using occurs_in_longer [of "''player.''" "''gold''" cond] by simp
  have "set valid_patterns = insert ''player.level'' (insert ''player.gold'' (set whitelist))"
    by (simp add: valid_patterns_def whitelist_def)
  moreover have "''player.'' \<in> set whitelist"
    by (simp add: whitelist_def)
  ultimately show ?thesis
    using a b by (auto simp: list_ex_iff contains_iff)
qed

lemma is_valid_condition_spec: "is_valid_condition cond \<longleftrightarrow> \<not> condition_error_spec cond"
proof -
  have "cond = [] \<Longrightarrow> blank cond" by (simp add: blank_def)
  then show ?thesis
    unfolding is_valid_condition_def condition_error_spec_def
    by (auto simp: strip_empty_iff valid_patterns_whitelist)
qed

lemma foldl_append_if:
  "foldl (\<lambda>acc x. if P x then acc @ [f x] else acc) acc0 xs = acc0 @ map f (filter P xs)"
  by (induction xs arbitrary: acc0) auto

lemma foldl_nested_append:
  "foldl (\<lambda>acc (k, v). acc @ g k v) acc0 xs = acc0 @ concat (map (\<lambda>(k, v). g k v) xs)"
  by (induction xs arbitrary: acc0) auto

text \<open>
  Claim C9 (condition syntax check). The check emits one error for each condition of a
  node, and one for the condition of each connection, that is not blank and contains none
  of the whitelisted tokens, and nothing else; a condition is accepted exactly when it is
  not such an error, so every empty condition is accepted.
\<close>

theorem validate_conditions_spec:
  "validate_conditions nodes_d conns =
     concat (map (\<lambda>(nid, node). map (node_condition_issue nid node)
                                     (filter condition_error_spec (conditions node))) nodes_d)
     @ map (\<lambda>(cid, conn). connection_condition_issue cid conn)
           (filter (\<lambda>(cid, conn). condition_error_spec (condition conn)) conns)
   \<and> (is_valid_condition cond \<longleftrightarrow> \<not> condition_error_spec cond)
   \<and> is_valid_condition []"
proof -
  have blank_nil: "\<not> condition_error_spec []"
    by (simp add: condition_error_spec_def blank_def)
  have inner: "\<And>acc nid node.
      foldl (\<lambda>acc1 c. if \<not> is_valid_condition c
                        then acc1 @ [node_condition_issue nid node c] else acc1)
            acc (conditions node)
      = acc @ map (node_condition_issue nid node) (filter condition_error_spec (conditions node))"
    by (simp add: foldl_append_if is_valid_condition_spec)
  have outer: "foldl (\<lambda>acc (nid, node).
                 foldl (\<lambda>acc1 c. if \<not> is_valid_condition c
                                  then acc1 @ [node_condition_issue nid node c] else acc1)
                       acc (conditions node)) [] nodes_d
      = concat (map (\<lambda>(nid, node). map (node_condition_issue nid node)
                   (filter condition_error_spec (conditions node))) nodes_d)"
    using foldl_nested_append
            [of "\<lambda>nid node. map (node_condition_issue nid node)
                   (filter condition_error_spec (conditions node))" "[]" nodes_d]
    by (simp add: inner)
  have cond_test: "\<And>c. (c \<noteq> [] \<and> \<not> is_valid_condition c) \<longleftrightarrow> condition_error_spec c"
    using blank_nil by (auto simp: is_valid_condition_spec)
  have conns_loop: "\<And>acc.
      foldl (\<lambda>acc (cid, conn).
               if condition conn \<noteq> [] \<and> \<not> is_valid_condition (condition conn)
               then acc @ [connection_condition_issue cid conn] else acc) acc conns
      = acc @ map (\<lambda>(cid, conn). connection_condition_issue cid conn)
                (filter (\<lambda>(cid, conn). condition_error_spec (condition conn)) conns)"
    using foldl_append_if
            [of "\<lambda>x. condition_error_spec (condition (snd x))"
                "\<lambda>x. connection_condition_issue (fst x) (snd x)" _ conns]
    by (simp add: cond_test case_prod_unfold)
  show ?thesis
    unfolding validate_conditions_def Let_def outer conns_loop
    by (simp add: is_valid_condition_spec blank_nil)
qed

definition nodes_cond :: "(string \<times> BaseNode) list" where
  "nodes_cond =
     [(''A'', (BaseNode_default ''A'')\<lparr>conditions := [''open sesame'', [], ''player.level > 3'', ''  '']\<rparr>)]"

definition conns_cond :: "(string \<times> Connection) list" where
  "conns_cond =
     [(''c1'', (Connection_default ''c1'')\<lparr>condition := ''has_item key''\<rparr>),
      (''c2'', (Connection_default ''c2'')\<lparr>condition := ''maybe''\<rparr>),
      (''c3'', Connection_default ''c3'')]"

text \<open>
  One node with four conditions and three connections: only the condition
  \<open>open sesame\<close> of the node and the condition \<open>maybe\<close> of the second connection are
  reported.
\<close>

theorem validate_conditions_spec_witness:
  "condition_error_spec ''open sesame'' \<and> condition_error_spec ''maybe''
   \<and> \<not> condition_error_spec ''player.level > 3'' \<and> \<not> condition_error_spec ''  ''
   \<and> map (\<lambda>i. (issue_id i, level i))
        (concat (map (\<lambda>(nid, node). map (node_condition_issue nid node)
                   (filter condition_error_spec (conditions node))) nodes_cond)
         @ map (\<lambda>(cid, conn). connection_condition_issue cid conn)
             (filter (\<lambda>(cid, conn). condition_error_spec (condition conn)) conns_cond))
       = [(''invalid_condition_A'', ''error''), (''invalid_connection_condition_c2'', ''error'')]"
proof -
  note iff = validate_conditions_spec [THEN conjunct2, THEN conjunct1]
  note eq = validate_conditions_spec [THEN conjunct1]
  have e: "\<not> is_valid_condition ''open sesame''" "\<not> is_valid_condition ''maybe''"
    "is_valid_condition ''player.level > 3''" "is_valid_condition ''  ''"
    by code_simp+
  have s: "condition_error_spec ''open sesame''" "condition_error_spec ''maybe''"
    "\<not> condition_error_spec ''player.level > 3''" "\<not> condition_error_spec ''  ''"
    using e by (simp_all add: iff)
  have ids: "map (\<lambda>i. (issue_id i, level i)) (validate_conditions nodes_cond conns_cond)
       = [(''invalid_condition_A'', ''error''), (''invalid_connection_condition_c2'', ''error'')]"
    by code_simp
  from ids have "map (\<lambda>i. (issue_id i, level i))
        (concat (map (\<lambda>(nid, node). map (node_condition_issue nid node)
                   (filter condition_error_spec (conditions node))) nodes_cond)
         @ map (\<lambda>(cid, conn). connection_condition_issue cid conn)
             (filter (\<lambda>(cid, conn). condition_error_spec (condition conn)) conns_cond))
       = [(''invalid_condition_A'', ''error''), (''invalid_connection_condition_c2'', ''error'')]"
    unfolding eq [of nodes_cond conns_cond] .
  with s show ?thesis by blast
qed

section \<open>Export and import of connections: round trip\<close>

text \<open>
  The dict invariant of \<open>self.connections\<close>: keys are distinct, and every connection is
  stored under its own id (both writers, \<open>add_connection\<close> and \<open>import_connections\<close>,
  use \<open>connection.id\<close> as the key).
\<close>

definition wf_connections :: "(string \<times> Connection) list \<Rightarrow> bool" where
  "wf_connections cs \<longleftrightarrow> distinct (map fst cs) \<and> (\<forall>(k, c) \<in> set cs. conn_id c = k)"

text \<open>The peer list of the port object that \<open>get_port\<close> finds, if there is one.\<close>

definition peers_of :: "NodeManager \<Rightarrow> string \<Rightarrow> string \<Rightarrow> string list option" where
  "peers_of m nid pid = map_option connected_to (get_port m nid pid)"

lemma ConnectionType_of_value: "ConnectionType_of (connection_type_value t) = Some t"
  by (cases t) (simp_all add: ConnectionType_of_def all_connection_types_def)

lemma connection_of_data_export: "connection_of_data fresh (connection_data c) = Some c"
  by (simp add: connection_of_data_def connection_data_def get_default_def
        ConnectionType_of_value)

lemma import_loop_export:
  "import_loop uuid i (map (\<lambda>(cid, c). connection_data c) cs) m = foldl import_one m (map snd cs)"
  by (induction cs arbitrary: i m) (auto simp: connection_of_data_export)

lemma connections_modify_port [simp]: "connections (modify_port n p f m) = connections m"
  by (simp add: modify_port_def)

lemma connections_import_one:
  "connections (import_one m c) = AList.update (conn_id c) c (connections m)"
  by (simp add: import_one_def Let_def split: option.splits)

lemma connections_foldl_import_one:
  "connections (foldl import_one m cs)
     = foldl (\<lambda>acc c. AList.update (conn_id c) c acc) (connections m) cs"
  by (induction cs arbitrary: m) (simp_all add: connections_import_one)

lemma update_fresh: "k \<notin> fst ` set al \<Longrightarrow> AList.update k v al = al @ [(k, v)]"
  by (induction al) auto

lemma foldl_update_wf:
  "distinct (map fst (acc @ cs)) \<Longrightarrow> \<forall>(k, c) \<in> set cs. conn_id c = k \<Longrightarrow>
     foldl (\<lambda>acc c. AList.update (conn_id c) c acc) acc (map snd cs) = acc @ cs"
proof (induction cs arbitrary: acc)
  case Nil
  then show ?case by simp
next
  case (Cons x cs)
  obtain k c where x: "x = (k, c)" by (cases x)
  from Cons.prems x have kc: "conn_id c = k" and fresh: "k \<notin> fst ` set acc"
    by auto
  from Cons.prems x have d: "distinct (map fst ((acc @ [(k, c)]) @ cs))" by auto
  from Cons.prems x have ids: "\<forall>(k, c) \<in> set cs. conn_id c = k" by auto
  show ?case
    using Cons.IH [OF d ids] x kc fresh by (simp add: update_fresh)
qed

lemma find_map_first:
  assumes "\<And>q. port_id (f q) = port_id q"
  shows "find (\<lambda>q. port_id q = p') (map_first (\<lambda>q. port_id q = p) f ps)
           = (if p' = p then map_option f (find (\<lambda>q. port_id q = p) ps)
              else find (\<lambda>q. port_id q = p') ps)"
  using assms by (induction ps) auto

lemma get_port_modify_port:
  assumes "\<And>q. port_id (f q) = port_id q"
  shows "get_port (modify_port n p f m) n' p'
           = (if n' = n \<and> p' = p then map_option f (get_port m n p) else get_port m n' p')"
  using find_map_first [of f, OF assms]
  by (auto simp: get_port_def get_node_def modify_port_def find_port_def
        AList.map_of_map_entry split: option.splits)

lemma port_id_add_peer_if_absent [simp]: "port_id (add_peer_if_absent x q) = port_id q"
  by (simp add: add_peer_if_absent_def append_peer_def)

lemma connected_to_add_peer_if_absent:
  "connected_to (add_peer_if_absent x q)
     = (if x \<in> set (connected_to q) then connected_to q else connected_to q @ [x])"
  by (simp add: add_peer_if_absent_def append_peer_def)

lemma peers_of_modify_port:
  "peers_of (modify_port n p (add_peer_if_absent x) m) n' p'
     = (if n' = n \<and> p' = p
        then map_option (\<lambda>l. if x \<in> set l then l else l @ [x]) (peers_of m n p)
        else peers_of m n' p')"
  by (cases "get_port m n p")
     (simp_all add: peers_of_def get_port_modify_port connected_to_add_peer_if_absent)

lemma import_one_peers:
  "peers_of (import_one m c) n p
     = (if peers_of m (from_node c) (from_port c) \<noteq> None
           \<and> peers_of m (to_node c) (to_port c) \<noteq> None
        then peers_of
               (modify_port (to_node c) (to_port c) (add_peer_if_absent (from_port c))
                  (modify_port (from_node c) (from_port c) (add_peer_if_absent (to_port c)) m))
               n p
        else peers_of m n p)"
  by (auto simp: import_one_def Let_def peers_of_def get_port_def get_node_def modify_port_def
        split: option.splits)

lemma import_one_None:
  "peers_of (import_one m c) n p = None \<longleftrightarrow> peers_of m n p = None"
  by (auto simp: import_one_peers peers_of_modify_port split: if_splits)

text \<open>
  What one imported connection contributes to the peer list of port \<open>p\<close> of node \<open>n\<close>:
  the id of the port at the other end, provided that both of its endpoint ports are found.
\<close>

definition linkable :: "NodeManager \<Rightarrow> Connection \<Rightarrow> bool" where
  "linkable m c \<longleftrightarrow> peers_of m (from_node c) (from_port c) \<noteq> None
                     \<and> peers_of m (to_node c) (to_port c) \<noteq> None"

definition link_peers :: "NodeManager \<Rightarrow> Connection \<Rightarrow> string \<Rightarrow> string \<Rightarrow> string set" where
  "link_peers m c n p =
     (if linkable m c
      then (if n = from_node c \<and> p = from_port c then {to_port c} else {})
           \<union> (if n = to_node c \<and> p = to_port c then {from_port c} else {})
      else {})"

definition restored_peers :: "NodeManager \<Rightarrow> Connection list \<Rightarrow> string \<Rightarrow> string \<Rightarrow> string set" where
  "restored_peers m cs n p = (\<Union>c \<in> set cs. link_peers m c n p)"

lemma linkable_import_one: "linkable (import_one m c) c' = linkable m c'"
  by (simp add: linkable_def import_one_None)

lemma link_peers_import_one: "link_peers (import_one m c) c' n p = link_peers m c' n p"
  by (simp add: link_peers_def linkable_import_one)

lemma restored_peers_import_one:
  "restored_peers (import_one m c) cs n p = restored_peers m cs n p"
  by (simp add: restored_peers_def link_peers_import_one)

lemma add_new_append:
  "\<exists>xs. (if x \<in> set l then l else l @ [x]) = l @ xs \<and> distinct xs \<and> set xs = {x} - set l"
  by auto

lemma import_one_list:
  assumes "peers_of m n p = Some l"
  shows "\<exists>xs. peers_of (import_one m c) n p = Some (l @ xs) \<and> distinct xs
           \<and> set xs = link_peers m c n p - set l"
proof (cases "linkable m c")
  case False
  then have "link_peers m c n p = {}"
    by (simp add: link_peers_def)
  moreover from False have "peers_of (import_one m c) n p = peers_of m n p"
    unfolding import_one_peers linkable_def by auto
  ultimately show ?thesis
    using assms by simp
next
  case True
  then obtain a b where a: "peers_of m (from_node c) (from_port c) = Some a"
    and b: "peers_of m (to_node c) (to_port c) = Some b"
    by (auto simp: linkable_def)
  show ?thesis
  proof (cases "n = from_node c \<and> p = from_port c")
    case src: True
    show ?thesis
    proof (cases "n = to_node c \<and> p = to_port c")
      case True
      with src a b assms have "peers_of (import_one m c) n p
          = Some (if p \<in> set l then l else l @ [p])"
        by (simp add: import_one_peers peers_of_modify_port)
      moreover from True src \<open>linkable m c\<close> have "link_peers m c n p = {p}"
        by (simp add: link_peers_def)
      ultimately show ?thesis
        using add_new_append [of p l] by simp
    next
      case False
      with src a b assms have "peers_of (import_one m c) n p
          = Some (if to_port c \<in> set l then l else l @ [to_port c])"
        by (auto simp add: import_one_peers peers_of_modify_port)
      moreover from False src \<open>linkable m c\<close> have "link_peers m c n p = {to_port c}"
        by (simp add: link_peers_def)
      ultimately show ?thesis
        using add_new_append [of "to_port c" l] by simp
    qed
  next
    case nsrc: False
    show ?thesis
    proof (cases "n = to_node c \<and> p = to_port c")
      case True
      with nsrc a b assms have "peers_of (import_one m c) n p
          = Some (if from_port c \<in> set l then l else l @ [from_port c])"
        by (auto simp add: import_one_peers peers_of_modify_port)
      moreover from True nsrc \<open>linkable m c\<close> have "link_peers m c n p = {from_port c}"
        by (simp add: link_peers_def)
      ultimately show ?thesis
        using add_new_append [of "from_port c" l] by simp
    next
      case False
      with nsrc a b assms have "peers_of (import_one m c) n p = Some l"
        by (auto simp add: import_one_peers peers_of_modify_port)
      moreover from False nsrc have "link_peers m c n p = {}"
        by (auto simp add: link_peers_def)
      ultimately show ?thesis by simp
    qed
  qed
qed

lemma foldl_import_one_None:
  "peers_of (foldl import_one m cs) n p = None \<longleftrightarrow> peers_of m n p = None"
  by (induction cs arbitrary: m) (simp_all add: import_one_None)

lemma foldl_import_one_list:
  assumes "peers_of m n p = Some l"
  shows "\<exists>xs. peers_of (foldl import_one m cs) n p = Some (l @ xs) \<and> distinct xs
           \<and> set xs = restored_peers m cs n p - set l"
  using assms
proof (induction cs arbitrary: m l)
  case Nil
  then show ?case by (simp add: restored_peers_def)
next
  case (Cons c cs)
  from import_one_list [OF Cons.prems, of c] obtain xs
    where l1: "peers_of (import_one m c) n p = Some (l @ xs)"
      and d1: "distinct xs"
      and s1: "set xs = link_peers m c n p - set l"
    by blast
  from Cons.IH [OF l1] obtain ys
    where l2: "peers_of (foldl import_one (import_one m c) cs) n p = Some ((l @ xs) @ ys)"
      and d2: "distinct ys"
      and s2: "set ys = restored_peers (import_one m c) cs n p - set (l @ xs)"
    by blast
  have r: "restored_peers m (c # cs) n p = link_peers m c n p \<union> restored_peers m cs n p"
    by (simp add: restored_peers_def)
  from d1 d2 s2 have "distinct (xs @ ys)"
    by auto
  moreover from s1 s2 have "set (xs @ ys) = restored_peers m (c # cs) n p - set l"
    unfolding r restored_peers_import_one by auto
  moreover from l2 have "peers_of (foldl import_one m (c # cs)) n p = Some (l @ (xs @ ys))"
    by simp
  ultimately show ?case
    by blast
qed

lemma peers_of_clear [simp]: "peers_of (m\<lparr>connections := []\<rparr>) n p = peers_of m n p"
  by (simp add: peers_of_def get_port_def get_node_def)

lemma restored_peers_clear [simp]:
  "restored_peers (m\<lparr>connections := []\<rparr>) cs n p = restored_peers m cs n p"
  by (simp add: restored_peers_def link_peers_def linkable_def)

text \<open>
  A connection is listed in a store when its two endpoint ports, if both are found, name
  each other in their peer lists. Importing a listed connection changes no port.
\<close>

definition listed :: "NodeManager \<Rightarrow> Connection \<Rightarrow> bool" where
  "listed m c =
     (case (peers_of m (from_node c) (from_port c), peers_of m (to_node c) (to_port c)) of
        (Some a, Some b) \<Rightarrow> to_port c \<in> set a \<and> from_port c \<in> set b
      | _ \<Rightarrow> True)"

lemma map_first_id: "find P ps = Some q \<Longrightarrow> f q = q \<Longrightarrow> map_first P f ps = ps"
  by (induction ps) (auto split: if_splits)

lemma map_entry_id: "map_of al k = Some v \<Longrightarrow> f v = v \<Longrightarrow> AList.map_entry k f al = al"
  by (induction al) (auto split: if_splits)

lemma modify_port_id:
  assumes "get_port m n p = Some q" and "f q = q"
  shows "modify_port n p f m = m"
proof -
  from assms(1) obtain nd where nd: "map_of (nodes m) n = Some nd"
    and q: "find (\<lambda>x. port_id x = p) (ports nd) = Some q"
    by (auto simp: get_port_def get_node_def find_port_def split: option.splits)
  from map_first_id [where f = f, OF q assms(2)]
  have "nd\<lparr>ports := map_first (\<lambda>x. port_id x = p) f (ports nd)\<rparr> = nd"
    by simp
  with nd have "AList.map_entry n
      (\<lambda>x. x\<lparr>ports := map_first (\<lambda>x. port_id x = p) f (ports x)\<rparr>) (nodes m) = nodes m"
    by (rule map_entry_id)
  then show ?thesis
    by (simp add: modify_port_def)
qed

lemma get_port_connections [simp]: "get_port (m\<lparr>connections := cs\<rparr>) n p = get_port m n p"
  by (simp add: get_port_def get_node_def)

lemma peers_of_connections [simp]: "peers_of (m\<lparr>connections := cs\<rparr>) n p = peers_of m n p"
  by (simp add: peers_of_def)

lemma listed_connections [simp]: "listed (m\<lparr>connections := cs\<rparr>) c = listed m c"
  by (simp add: listed_def)

lemma import_one_listed:
  assumes "listed m c"
  shows "import_one m c = m\<lparr>connections := AList.update (conn_id c) c (connections m)\<rparr>"
proof (cases "get_port m (from_node c) (from_port c)")
  case None
  then show ?thesis
    by (auto simp: import_one_def Let_def get_port_def get_node_def split: option.splits)
next
  case f: (Some fport)
  show ?thesis
  proof (cases "get_port m (to_node c) (to_port c)")
    case None
    then show ?thesis
      by (auto simp: import_one_def Let_def get_port_def get_node_def split: option.splits)
  next
    case t: (Some tport)
    define m1 where "m1 = m\<lparr>connections := AList.update (conn_id c) c (connections m)\<rparr>"
    from f t assms have inf: "to_port c \<in> set (connected_to fport)"
      and int: "from_port c \<in> set (connected_to tport)"
      by (simp_all add: listed_def peers_of_def)
    from f have f1: "get_port m1 (from_node c) (from_port c) = Some fport"
      by (simp add: m1_def)
    from t have t1: "get_port m1 (to_node c) (to_port c) = Some tport"
      by (simp add: m1_def)
    from inf have "add_peer_if_absent (to_port c) fport = fport"
      by (simp add: add_peer_if_absent_def)
    from modify_port_id [where f = "add_peer_if_absent (to_port c)", OF f1 this]
    have s1: "modify_port (from_node c) (from_port c) (add_peer_if_absent (to_port c)) m1 = m1" .
    from int have "add_peer_if_absent (from_port c) tport = tport"
      by (simp add: add_peer_if_absent_def)
    from modify_port_id [where f = "add_peer_if_absent (from_port c)", OF t1 this]
    have s2: "modify_port (to_node c) (to_port c) (add_peer_if_absent (from_port c)) m1 = m1" .
    from f1 t1 have "import_one m c
        = modify_port (to_node c) (to_port c) (add_peer_if_absent (from_port c))
            (modify_port (from_node c) (from_port c) (add_peer_if_absent (to_port c)) m1)"
      by (auto simp: import_one_def Let_def m1_def [symmetric] get_port_def split: option.splits)
    with s1 s2 show ?thesis
      by (simp add: m1_def)
  qed
qed

lemma foldl_import_one_listed:
  "\<forall>c \<in> set cs. listed m c \<Longrightarrow>
     foldl import_one m cs
       = m\<lparr>connections := foldl (\<lambda>acc c. AList.update (conn_id c) c acc) (connections m) cs\<rparr>"
proof (induction cs arbitrary: m)
  case Nil
  then show ?case by simp
next
  case (Cons c cs)
  from Cons.prems have c: "listed m c" by simp
  define m1 where "m1 = m\<lparr>connections := AList.update (conn_id c) c (connections m)\<rparr>"
  from Cons.prems have "\<forall>c \<in> set cs. listed m1 c"
    by (simp add: m1_def)
  from Cons.IH [OF this] import_one_listed [OF c] show ?case
    by (simp add: m1_def)
qed

text \<open>
  The graph of the round-trip scenario: five nodes, each with an input and an output port,
  and four connections of four categories, one of them resource-gated with a non-empty
  resource map. \<open>nodes_rt\<close> holds the same nodes with no connection made.
\<close>

definition node_io :: "string \<Rightarrow> BaseNode" where
  "node_io nid =
     (BaseNode_default nid)\<lparr>ports :=
        [(Port_default (nid @ ''_in''))\<lparr>port_type := ''input''\<rparr>,
         (Port_default (nid @ ''_out''))\<lparr>port_type := ''output''\<rparr>]\<rparr>"

definition nodes_rt :: NodeManager where
  "nodes_rt = run_ops (map (\<lambda>nid. AddNode (node_io nid)) [''n1'', ''n2'', ''n3'', ''n4'', ''n5''])"

definition store_rt :: NodeManager where
  "store_rt =
     foldl apply_op nodes_rt
       [AddConnection ''n1'' ''n1_out'' ''n2'' ''n2_in'' SIMPLE (Connection_default ''c1''),
        AddConnection ''n2'' ''n2_out'' ''n3'' ''n3_in'' CONDITIONAL
          ((Connection_default ''c2'')\<lparr>condition := ''player.level > 5'', priority := 2\<rparr>),
        AddConnection ''n2'' ''n2_out'' ''n4'' ''n4_in'' RESOURCE_GATED
          ((Connection_default ''c3'')\<lparr>required_resources := [(''gold'', 50)],
             required_flags := [''met_guard''],
             state_changes := [(''paid'', PyBool True)]\<rparr>),
        AddConnection ''n4'' ''n4_out'' ''n5'' ''n5_in'' REPUTATION_BASED
          ((Connection_default ''c4'')\<lparr>required_reputation := [(''guild'', 3)],
             reputation_changes := [(''guild'', 1)]\<rparr>)]"

definition uuid_rt :: "nat \<Rightarrow> string" where
  "uuid_rt i = ''uuid-'' @ str_nat i"

text \<open>
  The two stores on which the peer lists after the import do not follow the restored
  connections: \<open>store_stale\<close> is \<open>store_xy\<close> after \<open>remove_node\<close> of Y, where the
  port of X still lists the port of Y; \<open>store_par\<close> holds two connections between the
  same two ports, built on \<open>nodes_par\<close>.
\<close>

definition store_stale :: NodeManager where
  "store_stale = snd (remove_node store_xy ''Y'')"

definition nodes_par :: NodeManager where
  "nodes_par = run_ops [AddNode (node_with_port ''X'' ''px'' ''output'' (- 1)),
                        AddNode (node_with_port ''Y'' ''py'' ''input'' (- 1))]"

definition store_par :: NodeManager where
  "store_par =
     foldl apply_op nodes_par
       [AddConnection ''X'' ''px'' ''Y'' ''py'' SIMPLE (Connection_default ''c1''),
        AddConnection ''X'' ''px'' ''Y'' ''py'' SIMPLE (Connection_default ''c2'')]"

text \<open>
  Claim C7 as it stands fails in its second half. Exporting \<open>store_stale\<close> and importing
  the result into the same store restores the (empty) connection map, and the port of X
  keeps the peer entry for which no connection exists. Exporting \<open>store_par\<close>, whose
  port of X lists the port of Y twice, once per connection, and importing into the same
  nodes without connections restores both connections and lists the port of Y once: the
  port is not equal to the original one.
\<close>

theorem import_export_peer_mismatch:
  "wf_connections (connections store_stale)
   \<and> connections (import_connections uuid_rt store_stale (export_connections store_stale)) = []
   \<and> peers_of (import_connections uuid_rt store_stale (export_connections store_stale))
        ''X'' ''px'' = Some [''py'']
   \<and> dangling_peers (import_connections uuid_rt store_stale (export_connections store_stale))
        = [(''X'', ''px'', ''py'')]
   \<and> wf_connections (connections store_par)
   \<and> map fst (connections (import_connections uuid_rt nodes_par (export_connections store_par)))
        = [''c1'', ''c2'']
   \<and> peers_of store_par ''X'' ''px'' = Some [''py'', ''py'']
   \<and> peers_of (import_connections uuid_rt nodes_par (export_connections store_par))
        ''X'' ''px'' = Some [''py'']
   \<and> import_connections uuid_rt nodes_par (export_connections store_par) \<noteq> store_par"
  by code_simp

text \<open>
  Claim C7, amended (export then import). Let the connection map of \<open>s\<close> be a dictionary
  that holds every connection under its own id. Importing what \<open>export_connections\<close>
  gives for \<open>s\<close> into any store \<open>t\<close> leaves \<open>t\<close> with exactly the connection map of
  \<open>s\<close>: the same ids in the same order, every field of every connection equal. The
  import only adds to the peer lists: the ports of \<open>t\<close> stay the same ports, and each
  peer list afterwards is the list from before, followed, once each, by those port ids
  that it did not hold and that are the other end of a restored connection ending in this
  port with both endpoint ports found in \<open>t\<close>. No entry is removed, and none is added
  twice. If every connection of \<open>s\<close> is listed in \<open>t\<close>, the import changes nothing but
  the connection map; so importing the export of \<open>s\<close> into \<open>s\<close> itself gives \<open>s\<close>
  back when all its connections are listed.
\<close>

theorem import_export_round_trip:
  assumes "wf_connections (connections s)"
  shows "connections (import_connections uuid t (export_connections s)) = connections s
    \<and> (case peers_of t n p of
         None \<Rightarrow> peers_of (import_connections uuid t (export_connections s)) n p = None
       | Some l \<Rightarrow>
           \<exists>xs. peers_of (import_connections uuid t (export_connections s)) n p = Some (l @ xs)
                \<and> distinct xs
                \<and> set xs = restored_peers t (map snd (connections s)) n p - set l)
    \<and> ((\<forall>c \<in> set (map snd (connections s)). listed t c)
         \<longrightarrow> import_connections uuid t (export_connections s) = t\<lparr>connections := connections s\<rparr>)
    \<and> ((\<forall>c \<in> set (map snd (connections s)). listed s c)
         \<longrightarrow> import_connections uuid s (export_connections s) = s)"
proof -
  have run: "import_connections uuid t (export_connections s)
               = foldl import_one (t\<lparr>connections := []\<rparr>) (map snd (connections s))" for t
    by (simp add: import_connections_def export_connections_def import_loop_export)
  from assms have d: "distinct (map fst ([] @ connections s))"
    and ids: "\<forall>(k, c) \<in> set (connections s). conn_id c = k"
    by (simp_all add: wf_connections_def)
  have upd: "foldl (\<lambda>acc c. AList.update (conn_id c) c acc) [] (map snd (connections s))
      = connections s"
    using foldl_update_wf [OF d ids] by simp
  have conns: "connections (import_connections uuid t (export_connections s)) = connections s"
    unfolding run connections_foldl_import_one using upd by simp
  have none: "peers_of (import_connections uuid t (export_connections s)) n p = None"
    if "peers_of t n p = None"
    unfolding run using that by (simp add: foldl_import_one_None)
  have some: "\<exists>xs. peers_of (import_connections uuid t (export_connections s)) n p = Some (l @ xs)
      \<and> distinct xs \<and> set xs = restored_peers t (map snd (connections s)) n p - set l"
    if "peers_of t n p = Some l" for l
    unfolding run
    using foldl_import_one_list [of "t\<lparr>connections := []\<rparr>" n p l "map snd (connections s)"] that
    by simp
  have same: "import_connections uuid t (export_connections s) = t\<lparr>connections := connections s\<rparr>"
    if "\<forall>c \<in> set (map snd (connections s)). listed t c" for t
  proof -
    from that have "\<forall>c \<in> set (map snd (connections s)). listed (t\<lparr>connections := []\<rparr>) c"
      by simp
    from foldl_import_one_listed [OF this] upd show ?thesis
      unfolding run by simp
  qed
  have self: "import_connections uuid s (export_connections s) = s"
    if "\<forall>c \<in> set (map snd (connections s)). listed s c"
    using same [OF that] by simp
  from none some have peers: "(case peers_of t n p of
         None \<Rightarrow> peers_of (import_connections uuid t (export_connections s)) n p = None
       | Some l \<Rightarrow>
           \<exists>xs. peers_of (import_connections uuid t (export_connections s)) n p = Some (l @ xs)
                \<and> distinct xs
                \<and> set xs = restored_peers t (map snd (connections s)) n p - set l)"
    by (simp split: option.split)
  from conns peers same self show ?thesis
    by blast
qed

text \<open>
  The scenario: the connections of \<open>store_rt\<close> are exported and imported into
  \<open>nodes_rt\<close>, whose ports list no peer. The connection map comes back equal, the
  output port of n2 lists the input ports of n3 and n4 again, and the whole store after
  the import equals \<open>store_rt\<close>; so does the store after importing into \<open>store_rt\<close>
  itself, all of whose connections are listed.
\<close>

theorem import_export_round_trip_witness:
  "wf_connections (connections store_rt)
   \<and> length (nodes store_rt) = 5 \<and> map fst (connections store_rt) = [''c1'', ''c2'', ''c3'', ''c4'']
   \<and> connections (import_connections uuid_rt nodes_rt (export_connections store_rt))
       = connections store_rt
   \<and> peers_of nodes_rt ''n2'' ''n2_out'' = Some []
   \<and> restored_peers nodes_rt (map snd (connections store_rt)) ''n2'' ''n2_out''
       = {''n3_in'', ''n4_in''}
   \<and> (\<exists>xs. peers_of (import_connections uuid_rt nodes_rt (export_connections store_rt))
               ''n2'' ''n2_out'' = Some xs \<and> distinct xs \<and> set xs = {''n3_in'', ''n4_in''})
   \<and> list_all (listed store_rt) (map snd (connections store_rt))
   \<and> import_connections uuid_rt store_rt (export_connections store_rt) = store_rt
   \<and> import_connections uuid_rt nodes_rt (export_connections store_rt) = store_rt"
proof -
  have wf: "wf_connections (connections store_rt)"
    by code_simp
  have shape: "length (nodes store_rt) = 5"
    "map fst (connections store_rt) = [''c1'', ''c2'', ''c3'', ''c4'']"
    by code_simp+
  have before: "peers_of nodes_rt ''n2'' ''n2_out'' = Some []"
    by code_simp
  have restored: "restored_peers nodes_rt (map snd (connections store_rt)) ''n2'' ''n2_out''
      = {''n3_in'', ''n4_in''}"
    by code_simp
  have all_listed: "list_all (listed store_rt) (map snd (connections store_rt))"
    by code_simp
  have whole: "import_connections uuid_rt nodes_rt (export_connections store_rt) = store_rt"
    by code_simp
  note rt = import_export_round_trip
    [OF wf, where uuid = uuid_rt and t = nodes_rt and n = "''n2''" and p = "''n2_out''"]
  from rt have conns: "connections (import_connections uuid_rt nodes_rt (export_connections store_rt))
      = connections store_rt"
    by (rule conjunct1)
  from rt [THEN conjunct2, THEN conjunct1]
  have peers: "\<exists>xs. peers_of (import_connections uuid_rt nodes_rt
        (export_connections store_rt)) ''n2'' ''n2_out'' = Some xs \<and> distinct xs
        \<and> set xs = {''n3_in'', ''n4_in''}"
    unfolding before restored by simp
  from all_listed have "\<forall>c \<in> set (map snd (connections store_rt)). listed store_rt c"
    unfolding list_all_iff .
  with rt [THEN conjunct2, THEN conjunct2, THEN conjunct2]
  have self: "import_connections uuid_rt store_rt (export_connections store_rt) = store_rt"
    by (rule mp)
  from wf shape conns before restored peers all_listed self whole show ?thesis
    by blast
qed

section \<open>Circular dependencies over all connections: what the search reports\<close>

text \<open>
  The directed edge that a connection stands for, and the edge relation of the adjacency
  dict.
\<close>

definition edge_of :: "string \<times> Connection \<Rightarrow> string \<times> string" where
  "edge_of kc = (from_node (snd kc), to_node (snd kc))"

definition succs :: "graph \<Rightarrow> (string \<times> string) set" where
  "succs g = {(x, y). y \<in> set (graph_get g x)}"

text \<open>The nodes that the search has entered: those coloured gray or black.\<close>

definition coloured :: "vcd_state \<Rightarrow> string set" where
  "coloured st = {v. colors st v = Some GRAY \<or> colors st v = Some BLACK}"

subsection \<open>The adjacency dict\<close>

lemma graph_get_graph_add:
  "graph_get (graph_add g c) x
     = graph_get g x @ (if from_node c = x then [to_node c] else [])"
  by (auto simp: graph_get_def graph_add_def Let_def AList.map_of_map_entry update_conv'
        split: option.splits)

lemma keys_graph_add: "fst ` set (graph_add g c) = insert (from_node c) (fst ` set g)"
  by (auto simp: graph_add_def Let_def dom_map_entry dom_update map_of_eq_None_iff)

lemma graph_get_foldl:
  "graph_get (foldl graph_add g cs) x
     = graph_get g x @ map to_node (filter (\<lambda>c. from_node c = x) cs)"
  by (induction cs arbitrary: g) (simp_all add: graph_get_graph_add)

lemma keys_foldl: "fst ` set (foldl graph_add g cs) = fst ` set g \<union> from_node ` set cs"
  by (induction cs arbitrary: g) (auto simp: keys_graph_add)

lemma graph_get_build_graph:
  "graph_get (build_graph conns) x
     = map to_node (filter (\<lambda>c. from_node c = x) (map snd conns))"
  unfolding build_graph_def graph_get_foldl by (simp add: graph_get_def)

lemma keys_build_graph: "set (map fst (build_graph conns)) = from_node ` snd ` set conns"
  by (simp add: build_graph_def keys_foldl image_image)

lemma succs_build_graph: "succs (build_graph conns) = set (map edge_of conns)"
  by (auto simp: succs_def graph_get_build_graph edge_of_def image_iff)

lemma graph_add_cong:
  "from_node c = from_node c' \<Longrightarrow> to_node c = to_node c' \<Longrightarrow> graph_add g c = graph_add g c'"
  by (simp add: graph_add_def)

lemma foldl_graph_add_cong:
  "map edge_of conns = map edge_of conns' \<Longrightarrow>
     foldl graph_add g (map snd conns) = foldl graph_add g (map snd conns')"
proof (induction conns arbitrary: conns' g)
  case Nil
  then show ?case by simp
next
  case (Cons x xs)
  then obtain y ys where c: "conns' = y # ys" by (cases conns') auto
  with Cons.prems have r: "map edge_of xs = map edge_of ys"
    by simp
  from c Cons.prems have e: "from_node (snd x) = from_node (snd y)" "to_node (snd x) = to_node (snd y)"
    by (simp_all add: edge_of_def)
  show ?case
    using Cons.IH [OF r] graph_add_cong [OF e] c by simp
qed

lemma validate_cong:
  assumes "map edge_of conns = map edge_of conns'"
  shows "validate_circular_dependencies conns = validate_circular_dependencies conns'"
proof -
  from assms have "length conns = length conns'"
    by (rule map_eq_imp_length_eq)
  moreover from assms have "build_graph conns = build_graph conns'"
    unfolding build_graph_def by (rule foldl_graph_add_cong)
  ultimately show ?thesis
    by (simp add: validate_circular_dependencies_def)
qed

subsection \<open>The search returns\<close>

lemma coloured_white [simp]:
  "coloured (st\<lparr>colors := (colors st)(v \<mapsto> WHITE)\<rparr>) = coloured st - {v}"
  by (auto simp: coloured_def)

lemma coloured_gray [simp]:
  "coloured (st\<lparr>colors := (colors st)(v \<mapsto> GRAY)\<rparr>) = insert v (coloured st)"
  by (auto simp: coloured_def)

lemma coloured_black [simp]:
  "coloured (st\<lparr>colors := (colors st)(v \<mapsto> BLACK)\<rparr>) = insert v (coloured st)"
  by (auto simp: coloured_def)

lemma coloured_issues [simp]: "coloured (st\<lparr>issues := i\<rparr>) = coloured st"
  by (simp add: coloured_def)

lemma card_less_mono:
  assumes "finite U" "C \<subseteq> C'" "card (U - C) < n"
  shows "card (U - C') < n"
proof -
  from assms(2) have "U - C' \<subseteq> U - C" by auto
  with assms(1) have "card (U - C') \<le> card (U - C)" by (simp add: card_mono)
  with assms(3) show ?thesis by simp
qed

lemma dfs_visit_loop_total:
  assumes fin: "finite U"
    and visit: "\<And>w path st. w \<in> U \<Longrightarrow> card (U - coloured st) < n \<Longrightarrow>
      \<exists>b st'. dfs_visit n g w path st = Some (b, st') \<and> coloured st \<subseteq> coloured st'"
  shows "set ns \<subseteq> U \<Longrightarrow> card (U - coloured st) < n \<Longrightarrow>
    \<exists>b st'. dfs_visit_loop n g ns v path st = Some (b, st') \<and> coloured st \<subseteq> coloured st'"
proof (induction ns arbitrary: st)
  case Nil
  then show ?case by auto
next
  case (Cons w ws)
  from Cons.prems visit [of w st path] obtain b st1
    where r: "dfs_visit n g w path st = Some (b, st1)" and m: "coloured st \<subseteq> coloured st1"
    by auto
  show ?case
  proof (cases b)
    case True
    with r m show ?thesis by auto
  next
    case False
    from card_less_mono [OF fin m] Cons.prems have "card (U - coloured st1) < n" by simp
    with Cons.IH [of st1] Cons.prems obtain b' st'
      where "dfs_visit_loop n g ws v path st1 = Some (b', st')" "coloured st1 \<subseteq> coloured st'"
      by auto
    with r m False show ?thesis by auto
  qed
qed

lemma dfs_visit_total:
  assumes fin: "finite U" and closed: "\<And>x. set (graph_get g x) \<subseteq> U"
  shows "w \<in> U \<Longrightarrow> card (U - coloured st) < n \<Longrightarrow>
    \<exists>b st'. dfs_visit n g w path st = Some (b, st') \<and> coloured st \<subseteq> coloured st'"
proof (induction n arbitrary: w path st)
  case 0
  then show ?case by simp
next
  case (Suc n)
  define st1 where "st1 = (if colors st w = None
    then st\<lparr>colors := (colors st)(w \<mapsto> WHITE)\<rparr> else st)"
  have c1: "coloured st1 = coloured st"
    by (auto simp: st1_def coloured_def)
  show ?case
  proof (cases "w \<in> coloured st1")
    case True
    then show ?thesis
      using c1 unfolding coloured_def
      by (auto simp: st1_def [symmetric] Let_def split: option.splits)
  next
    case False
    then have ng: "colors st1 w \<noteq> Some GRAY" and nb: "colors st1 w \<noteq> Some BLACK"
      by (auto simp: coloured_def)
    from False c1 Suc.prems have mem: "w \<in> U - coloured st" by simp
    from fin have "finite (U - coloured st)" by simp
    from card_Diff1_less [OF this mem] Suc.prems(2) have "card (U - coloured st - {w}) < n"
      by simp
    moreover have "U - insert w (coloured st) = U - coloured st - {w}" by auto
    ultimately have less: "card (U - coloured (st1\<lparr>colors := (colors st1)(w \<mapsto> GRAY)\<rparr>)) < n"
      by (simp add: c1)
    from dfs_visit_loop_total [where v = w and path = "path @ [w]", OF fin Suc.IH closed [of w] less]
    obtain b st' where
      "dfs_visit_loop n g (graph_get g w) w (path @ [w])
         (st1\<lparr>colors := (colors st1)(w \<mapsto> GRAY)\<rparr>) = Some (b, st')"
      "insert w (coloured st1) \<subseteq> coloured st'"
      by auto
    with ng nb c1 show ?thesis
      by (auto simp: st1_def [symmetric] Let_def)
  qed
qed

lemma dfs_roots_total:
  assumes fin: "finite U" and closed: "\<And>x. set (graph_get g x) \<subseteq> U"
  shows "set rs \<subseteq> U \<Longrightarrow> card (U - coloured st) < n \<Longrightarrow> \<exists>st'. dfs_roots n g rs st = Some st'"
proof (induction rs arbitrary: st)
  case Nil
  then show ?case by simp
next
  case (Cons r rs)
  show ?case
  proof (cases "colors st r = None \<or> colors st r = Some WHITE")
    case False
    with Cons.IH [of st] Cons.prems show ?thesis by auto
  next
    case True
    from dfs_visit_total [OF fin closed, of r st n "[]"] Cons.prems obtain b st1
      where r: "dfs_visit n g r [] st = Some (b, st1)" and m: "coloured st \<subseteq> coloured st1"
      by auto
    from card_less_mono [OF fin m] Cons.prems have "card (U - coloured st1) < n" by simp
    with Cons.IH [of st1] Cons.prems obtain st' where "dfs_roots n g rs st1 = Some st'"
      by auto
    with True r show ?thesis by auto
  qed
qed

lemma validate_total: "\<exists>found. validate_circular_dependencies conns = Some found"
proof -
  define U where "U = from_node ` snd ` set conns \<union> to_node ` snd ` set conns"
  have fin: "finite U" by (simp add: U_def)
  have closed: "set (graph_get (build_graph conns) x) \<subseteq> U" for x
    by (auto simp: graph_get_build_graph U_def)
  have roots: "set (map fst (build_graph conns)) \<subseteq> U"
    unfolding keys_build_graph by (simp add: U_def)
  have "card U \<le> card (from_node ` snd ` set conns) + card (to_node ` snd ` set conns)"
    unfolding U_def by (rule card_Un_le)
  also have "\<dots> \<le> card (set conns) + card (set conns)"
    by (intro add_mono order_trans [OF card_image_le] card_image_le) simp_all
  also have "\<dots> \<le> 2 * length conns"
    using card_length [of conns] by simp
  finally have "card U < 2 * length conns + 1" by simp
  moreover have "card (U - coloured \<lparr>colors = Map.empty, issues = []\<rparr>) \<le> card U"
    using fin by (simp add: card_mono)
  ultimately have "card (U - coloured \<lparr>colors = Map.empty, issues = []\<rparr>) < 2 * length conns + 1"
    by simp
  from dfs_roots_total [OF fin closed roots this]
  show ?thesis
    by (auto simp: validate_circular_dependencies_def)
qed

subsection \<open>No finding without a cycle\<close>

lemma index_of_Some: "index_of xs x = Some i \<Longrightarrow> x \<in> set xs"
  by (induction xs arbitrary: i) (auto split: if_splits)

lemma successively_trancl:
  "successively (\<lambda>x y. (x, y) \<in> E) (x # zs @ [y]) \<Longrightarrow> (x, y) \<in> E\<^sup>+"
proof (induction zs arbitrary: x)
  case Nil
  then show ?case by auto
next
  case (Cons z zs)
  then have "(x, z) \<in> E" and "(z, y) \<in> E\<^sup>+" by auto
  then show ?case by (rule trancl_into_trancl2)
qed

lemma path_closes_cycle:
  assumes "successively (\<lambda>x y. (x, y) \<in> E) (path @ [v])" and "v \<in> set path"
  shows "(v, v) \<in> E\<^sup>+"
proof -
  from assms(2) obtain ys zs where "path = ys @ v # zs"
    by (auto dest: split_list)
  with assms(1) have "successively (\<lambda>x y. (x, y) \<in> E) (ys @ (v # zs @ [v]))" by simp
  then have "successively (\<lambda>x y. (x, y) \<in> E) (v # zs @ [v])"
    unfolding successively_append_iff by blast
  then show ?thesis by (rule successively_trancl)
qed

lemma dfs_visit_loop_quiet:
  assumes visit: "\<And>w path st b st'.
      successively (\<lambda>x y. (x, y) \<in> succs g) (path @ [w]) \<Longrightarrow>
      dfs_visit n g w path st = Some (b, st') \<Longrightarrow> issues st' = issues st"
    and chain: "successively (\<lambda>x y. (x, y) \<in> succs g) (path @ [v])"
  shows "set ns \<subseteq> set (graph_get g v) \<Longrightarrow>
    dfs_visit_loop n g ns v (path @ [v]) st = Some (b, st') \<Longrightarrow> issues st' = issues st"
proof (induction ns arbitrary: st)
  case Nil
  then show ?case by auto
next
  case (Cons w ws)
  from Cons.prems(1) have "(v, w) \<in> succs g"
    by (simp add: succs_def)
  with chain have c: "successively (\<lambda>x y. (x, y) \<in> succs g) ((path @ [v]) @ [w])"
    by (simp add: successively_append_iff)
  from Cons.prems(2) obtain b1 st1 where r: "dfs_visit n g w (path @ [v]) st = Some (b1, st1)"
    by (auto split: option.splits)
  from visit [OF c r] have i1: "issues st1 = issues st" .
  show ?case
  proof (cases b1)
    case True
    with r Cons.prems(2) i1 show ?thesis by auto
  next
    case False
    with r Cons.prems(2) have "dfs_visit_loop n g ws v (path @ [v]) st1 = Some (b, st')"
      by simp
    with Cons.IH [of st1] Cons.prems(1) i1 show ?thesis by simp
  qed
qed

lemma dfs_visit_quiet:
  assumes ac: "acyclic (succs g)"
  shows "successively (\<lambda>x y. (x, y) \<in> succs g) (path @ [w]) \<Longrightarrow>
    dfs_visit n g w path st = Some (b, st') \<Longrightarrow> issues st' = issues st"
proof (induction n arbitrary: w path st b st')
  case 0
  then show ?case by simp
next
  case (Suc n)
  define st1 where "st1 = (if colors st w = None
    then st\<lparr>colors := (colors st)(w \<mapsto> WHITE)\<rparr> else st)"
  have i1: "issues st1 = issues st"
    by (simp add: st1_def)
  have off_path: "index_of path w = None"
  proof (cases "index_of path w")
    case (Some i)
    then have "w \<in> set path" by (rule index_of_Some)
    with Suc.prems(1) have "(w, w) \<in> (succs g)\<^sup>+" by (rule path_closes_cycle)
    with ac show ?thesis by (simp add: acyclic_def)
  qed simp
  show ?case
  proof (cases "colors st1 w = Some GRAY \<or> colors st1 w = Some BLACK")
    case True
    with Suc.prems(2) off_path i1 show ?thesis
      by (auto simp: st1_def [symmetric] Let_def split: if_splits)
  next
    case False
    with Suc.prems(2) have "dfs_visit_loop n g (graph_get g w) w (path @ [w])
        (st1\<lparr>colors := (colors st1)(w \<mapsto> GRAY)\<rparr>) = Some (b, st')"
      by (simp add: st1_def [symmetric] Let_def)
    from dfs_visit_loop_quiet [OF Suc.IH Suc.prems(1) subset_refl this] i1
    show ?thesis by simp
  qed
qed

lemma dfs_roots_quiet:
  assumes ac: "acyclic (succs g)"
  shows "dfs_roots n g rs st = Some st' \<Longrightarrow> issues st' = issues st"
proof (induction rs arbitrary: st)
  case Nil
  then show ?case by simp
next
  case (Cons r rs)
  show ?case
  proof (cases "colors st r = None \<or> colors st r = Some WHITE")
    case False
    with Cons show ?thesis by auto
  next
    case True
    with Cons.prems obtain b st1 where r: "dfs_visit n g r [] st = Some (b, st1)"
      and rest: "dfs_roots n g rs st1 = Some st'"
      by (auto split: option.splits)
    from dfs_visit_quiet [OF ac _ r] have "issues st1 = issues st" by simp
    with Cons.IH [OF rest] show ?thesis by simp
  qed
qed

lemma validate_acyclic:
  assumes "acyclic (set (map edge_of conns))"
  shows "validate_circular_dependencies conns = Some []"
proof -
  from validate_total obtain found where f: "validate_circular_dependencies conns = Some found"
    by blast
  then obtain st' where "dfs_roots (2 * length conns + 1) (build_graph conns)
      (map fst (build_graph conns)) \<lparr>colors = Map.empty, issues = []\<rparr> = Some st'"
    and "found = issues st'"
    by (auto simp: validate_circular_dependencies_def Let_def)
  with dfs_roots_quiet [of "build_graph conns"] assms have "found = []"
    by (simp add: succs_build_graph)
  with f show ?thesis by simp
qed

subsection \<open>The cycle through three nodes\<close>

lemma validate_three_cycle:
  assumes "distinct [a, b, c]"
    and "map edge_of conns = [(a, b), (b, c), (c, a)] \<or> map edge_of conns = [(a, b), (c, a), (b, c)]"
  shows "validate_circular_dependencies conns = Some [cycle_issue a [a, b, c, a] 0]"
proof -
  have e1: "map edge_of [edge [] a b SIMPLE, edge [] b c SIMPLE, edge [] c a SIMPLE]
      = [(a, b), (b, c), (c, a)]"
    and e2: "map edge_of [edge [] a b SIMPLE, edge [] c a SIMPLE, edge [] b c SIMPLE]
      = [(a, b), (c, a), (b, c)]"
    by (simp_all add: edge_of_def edge_def)
  from assms(1) have d: "a \<noteq> b" "b \<noteq> a" "a \<noteq> c" "c \<noteq> a" "b \<noteq> c" "c \<noteq> b"
    by auto
  have v1: "validate_circular_dependencies
      [edge [] a b SIMPLE, edge [] b c SIMPLE, edge [] c a SIMPLE]
      = Some [cycle_issue a [a, b, c, a] 0]"
    using d
    by (simp add: validate_circular_dependencies_def build_graph_def graph_add_def edge_def
          graph_get_def Let_def eval_nat_numeral)
  have v2: "validate_circular_dependencies
      [edge [] a b SIMPLE, edge [] c a SIMPLE, edge [] b c SIMPLE]
      = Some [cycle_issue a [a, b, c, a] 0]"
    using d
    by (simp add: validate_circular_dependencies_def build_graph_def graph_add_def edge_def
          graph_get_def Let_def eval_nat_numeral)
  from assms(2) show ?thesis
  proof
    assume "map edge_of conns = [(a, b), (b, c), (c, a)]"
    with e1 have "map edge_of conns
        = map edge_of [edge [] a b SIMPLE, edge [] b c SIMPLE, edge [] c a SIMPLE]"
      by simp
    from validate_cong [OF this] v1 show ?thesis by simp
  next
    assume "map edge_of conns = [(a, b), (c, a), (b, c)]"
    with e2 have "map edge_of conns
        = map edge_of [edge [] a b SIMPLE, edge [] c a SIMPLE, edge [] b c SIMPLE]"
      by simp
    from validate_cong [OF this] v2 show ?thesis by simp
  qed
qed

text \<open>
  The graphs of the scenario: the cycle A, B, C over simple connections, the same cycle
  over connections of three other categories, and an acyclic graph on the same nodes.
\<close>

definition conns_cycle :: "(string \<times> Connection) list" where
  "conns_cycle = [edge ''c1'' ''A'' ''B'' SIMPLE, edge ''c2'' ''B'' ''C'' SIMPLE,
                  edge ''c3'' ''C'' ''A'' SIMPLE]"

definition conns_mixed :: "(string \<times> Connection) list" where
  "conns_mixed = [edge ''m1'' ''A'' ''B'' CHOICE, edge ''m2'' ''B'' ''C'' STATE_CHANGE,
                  edge ''m3'' ''C'' ''A'' CONDITIONAL]"

definition conns_dag :: "(string \<times> Connection) list" where
  "conns_dag = [edge ''c1'' ''A'' ''B'' SIMPLE, edge ''c2'' ''B'' ''C'' SIMPLE,
                edge ''c3'' ''A'' ''C'' SIMPLE]"

text \<open>
  Claim C5 (circular dependencies over the whole graph). The search always returns a list
  of findings. Only the list of edges counts: two connection dicts with the same edges in
  the same order give the same findings, whatever the categories and other fields of
  their connections. For three different nodes a, b, c whose only connections are a to b,
  b to c and c to a (the first being a to b; every other order is this one after renaming)
  there is exactly one finding, an error with the involved nodes a, b, c. If the edges
  form no cycle, there is no finding.
\<close>

theorem validate_circular_dependencies_cycles:
  "(\<exists>found. validate_circular_dependencies conns = Some found)
   \<and> (map edge_of conns' = map edge_of conns
        \<longrightarrow> validate_circular_dependencies conns' = validate_circular_dependencies conns)
   \<and> (distinct [a, b, c]
        \<and> (map edge_of cyc = [(a, b), (b, c), (c, a)] \<or> map edge_of cyc = [(a, b), (c, a), (b, c)])
        \<longrightarrow> (\<exists>iss. validate_circular_dependencies cyc = Some [iss] \<and> level iss = ''error''
                  \<and> nodes_involved iss = Some [a, b, c]))
   \<and> (acyclic (set (map edge_of dag)) \<longrightarrow> validate_circular_dependencies dag = Some [])"
proof (intro conjI impI)
  show "\<exists>found. validate_circular_dependencies conns = Some found"
    by (rule validate_total)
next
  assume "map edge_of conns' = map edge_of conns"
  then show "validate_circular_dependencies conns' = validate_circular_dependencies conns"
    by (rule validate_cong)
next
  assume h: "distinct [a, b, c]
    \<and> (map edge_of cyc = [(a, b), (b, c), (c, a)] \<or> map edge_of cyc = [(a, b), (c, a), (b, c)])"
  from h [THEN conjunct1] h [THEN conjunct2]
  have "validate_circular_dependencies cyc = Some [cycle_issue a [a, b, c, a] 0]"
    by (rule validate_three_cycle)
  then show "\<exists>iss. validate_circular_dependencies cyc = Some [iss] \<and> level iss = ''error''
      \<and> nodes_involved iss = Some [a, b, c]"
    by (simp add: cycle_issue_def)
next
  assume "acyclic (set (map edge_of dag))"
  then show "validate_circular_dependencies dag = Some []"
    by (rule validate_acyclic)
qed

text \<open>
  The scenario: one error with the nodes A, B, C for the cycle, the same for the cycle
  over other categories, none for the acyclic graph.
\<close>

theorem validate_circular_dependencies_cycles_witness:
  "distinct [''A'', ''B'', ''C'']
   \<and> map edge_of conns_cycle = [(''A'', ''B''), (''B'', ''C''), (''C'', ''A'')]
   \<and> map edge_of conns_mixed = map edge_of conns_cycle
   \<and> acyclic (set (map edge_of conns_dag))
   \<and> (\<exists>iss. validate_circular_dependencies conns_cycle = Some [iss] \<and> level iss = ''error''
          \<and> nodes_involved iss = Some [''A'', ''B'', ''C''])
   \<and> validate_circular_dependencies conns_mixed = validate_circular_dependencies conns_cycle
   \<and> validate_circular_dependencies conns_dag = Some []
   \<and> length conns_dag = length conns_cycle"
proof -
  have d: "distinct [''A'', ''B'', ''C'']"
    by simp
  have c: "map edge_of conns_cycle = [(''A'', ''B''), (''B'', ''C''), (''C'', ''A'')]"
    by code_simp
  have m: "map edge_of conns_mixed = map edge_of conns_cycle"
    by code_simp
  have a: "acyclic (set (map edge_of conns_dag))"
    by code_simp
  have l: "length conns_dag = length conns_cycle"
    by code_simp
  note t = validate_circular_dependencies_cycles
    [of conns_cycle conns_mixed "''A''" "''B''" "''C''" conns_cycle conns_dag]
  from t d c have "\<exists>iss. validate_circular_dependencies conns_cycle = Some [iss]
      \<and> level iss = ''error'' \<and> nodes_involved iss = Some [''A'', ''B'', ''C'']"
    by blast
  moreover from t m have "validate_circular_dependencies conns_mixed
      = validate_circular_dependencies conns_cycle"
    by blast
  moreover from t a have "validate_circular_dependencies conns_dag = Some []"
    by blast
  ultimately show ?thesis
    using d c m a l by blast
qed

section \<open>Unreachable nodes: what the search reports\<close>




subsection \<open>The search returns\<close>



subsection \<open>The search finds what is reachable\<close>









subsection \<open>The findings\<close>














definition conns_ab :: "(string \<times> Connection) list" where
  "conns_ab = [edge ''c1'' ''A'' ''B'' SIMPLE, edge ''c2'' ''B'' ''C'' SIMPLE]"

definition conns_loop :: "(string \<times> Connection) list" where
  "conns_loop = conns_ab @ [edge ''c3'' ''D'' ''D'' SIMPLE]"




end
